theory Spec2Isabelle
  imports Complex_Main "HOL-Library.Log_Nat" "HOL-Library.Transitive_Closure_Table"
begin

chapter \<open>Model of the pipeline\<close>

section \<open>Data model\<close>

text \<open>
  A pandas cell is a missing value (\<open>None\<close>/\<open>NaN\<close>), a string or an integer. A DataFrame
  is kept row-wise: the list of column labels it carries and its rows; reading a column
  whose label is absent raises \<open>KeyError\<close>. Only the columns the pipeline names are kept
  in a row; every other column is carried along untouched by the code and is left out.
  Strings are byte strings; the case mappings below are those of ASCII.
\<close>

datatype cell = Null | Str string | Num int

datatype py_error = KeyError "string list" | ValueError nat | ValueError_empty_argmax | TypeError

record course_row =
  course_code :: cell
  course_name :: cell
  credits :: cell
  program_code :: cell
  course_type :: cell

record 'r dataframe =
  columns :: "string list"
  rows :: "'r list"

definition course_field :: "string \<Rightarrow> course_row \<Rightarrow> cell" where
  "course_field c =
     (if c = ''course_code'' then course_code
      else if c = ''course_name'' then course_name
      else if c = ''credits'' then credits
      else if c = ''program_code'' then program_code
      else if c = ''course_type'' then course_type
      else (\<lambda>r. Null))"

definition course_column :: "course_row dataframe \<Rightarrow> string \<Rightarrow> py_error + cell list" where
  "course_column df c =
     (if c \<in> set (columns df) then Inr (map (course_field c) (rows df)) else Inl (KeyError [c]))"

section \<open>Normalizer (preprocess\_data.py)\<close>

subsection \<open>String operations of pandas and Python\<close>

text \<open>
  \<open>astype(str)\<close> renders a cell as text: a string is itself, an integer is its decimal
  numeral, a missing value is \<open>nan\<close>.
\<close>

fun digits :: "nat \<Rightarrow> string" where
  "digits n = (if n < 10 then [char_of (48 + n)] else digits (n div 10) @ [char_of (48 + n mod 10)])"

definition show_int :: "int \<Rightarrow> string" where
  "show_int i = (if i < 0 then CHR ''-'' # digits (nat (- i)) else digits (nat i))"

fun astype_str :: "cell \<Rightarrow> string" where
  "astype_str Null = ''nan''"
| "astype_str (Str s) = s"
| "astype_str (Num i) = show_int i"

text \<open>
  \<open>str.strip()\<close> removes leading and trailing whitespace. The ASCII characters for which
  \<open>str.isspace()\<close> holds are tab, line feed, vertical tab, form feed, carriage return,
  the four separators 0x1C to 0x1F, and space.
\<close>

definition is_space :: "char \<Rightarrow> bool" where
  "is_space c = (let n = (of_char c :: nat) in (9 \<le> n \<and> n \<le> 13) \<or> (28 \<le> n \<and> n \<le> 32))"

definition str_strip :: "string \<Rightarrow> string" where
  "str_strip s = rev (dropWhile is_space (rev (dropWhile is_space s)))"

definition is_lower :: "char \<Rightarrow> bool" where
  "is_lower c = (let n = (of_char c :: nat) in 97 \<le> n \<and> n \<le> 122)"

definition is_upper :: "char \<Rightarrow> bool" where
  "is_upper c = (let n = (of_char c :: nat) in 65 \<le> n \<and> n \<le> 90)"

definition to_upper :: "char \<Rightarrow> char" where
  "to_upper c = (if is_lower c then char_of ((of_char c :: nat) - 32) else c)"

definition to_lower :: "char \<Rightarrow> char" where
  "to_lower c = (if is_upper c then char_of ((of_char c :: nat) + 32) else c)"

definition str_upper :: "string \<Rightarrow> string" where
  "str_upper s = map to_upper s"

text \<open>
  \<open>str.title()\<close>: a cased character is upper-cased when the character before it is not
  cased (or there is none), and lower-cased otherwise.
\<close>

fun title_from :: "bool \<Rightarrow> string \<Rightarrow> string" where
  "title_from previous_is_cased [] = []"
| "title_from previous_is_cased (c # cs) =
     (if previous_is_cased then to_lower c else to_upper c)
       # title_from (is_lower c \<or> is_upper c) cs"

definition str_title :: "string \<Rightarrow> string" where
  "str_title s = title_from False s"

text \<open>
  The \<open>.str\<close> accessor applies a string method to the string cells of a column; a cell
  that is not a string yields a missing value.
\<close>

fun str_apply :: "(string \<Rightarrow> string) \<Rightarrow> cell \<Rightarrow> cell" where
  "str_apply f (Str s) = Str (f s)"
| "str_apply f c = Null"

subsection \<open>Row operations of pandas\<close>

text \<open>
  \<open>drop_duplicates(subset=...)\<close> keeps the first row of every key, in input order;
  \<open>seen\<close> holds the keys of the rows already passed.
\<close>

fun drop_duplicates_from :: "('r \<Rightarrow> 'k) \<Rightarrow> 'k list \<Rightarrow> 'r list \<Rightarrow> 'r list" where
  "drop_duplicates_from key seen [] = []"
| "drop_duplicates_from key seen (r # rs) =
     (if key r \<in> set seen then drop_duplicates_from key seen rs
      else r # drop_duplicates_from key (key r # seen) rs)"

definition drop_duplicates :: "('r \<Rightarrow> 'k) \<Rightarrow> 'r list \<Rightarrow> 'r list" where
  "drop_duplicates key rs = drop_duplicates_from key [] rs"

text \<open>\<open>Series.unique()\<close>: the distinct values in order of first appearance.\<close>

definition unique :: "'a list \<Rightarrow> 'a list" where
  "unique col = drop_duplicates (\<lambda>v. v) col"

text \<open>
  \<open>dropna(subset=...)\<close> raises \<open>KeyError\<close> when a label of the subset is not a column,
  and otherwise keeps the rows whose cells under the subset are all present.
\<close>

definition dropna :: "(string \<Rightarrow> 'r \<Rightarrow> cell) \<Rightarrow> string list \<Rightarrow> 'r dataframe \<Rightarrow> py_error + 'r dataframe" where
  "dropna field labels df =
     (case filter (\<lambda>c. c \<notin> set (columns df)) labels of
        c # cs \<Rightarrow> Inl (KeyError (c # cs))
      | [] \<Rightarrow> Inr (df\<lparr>rows := filter (\<lambda>r. list_all (\<lambda>c. field c r \<noteq> Null) labels) (rows df)\<rparr>))"

subsection \<open>Courses\<close>

definition VALID_PROGRAM_CODES :: "string set" where
  "VALID_PROGRAM_CODES = {''MS_DAE'', ''MS_DS'', ''MS_CS'', ''MS_DA'', ''MS_IS''}"

definition VALID_COURSE_TYPES :: "string set" where
  "VALID_COURSE_TYPES = {''Core'', ''Elective''}"

text \<open>\<open>Series.isin\<close> over a set of strings: only a string cell can be a member.\<close>

fun isin :: "cell \<Rightarrow> string set \<Rightarrow> bool" where
  "isin (Str s) A = (s \<in> A)"
| "isin c A = False"

definition required :: "string list" where
  "required = [''course_code'', ''course_name'', ''credits'', ''program_code'', ''course_type'']"

text \<open>The loop over \<open>str_cols\<close>: \<open>df[col] = df[col].astype(str).str.strip()\<close>.\<close>

definition strip_course :: "course_row \<Rightarrow> course_row" where
  "strip_course r =
     r\<lparr>course_code := str_apply str_strip (Str (astype_str (course_code r))),
       course_name := str_apply str_strip (Str (astype_str (course_name r))),
       program_code := str_apply str_strip (Str (astype_str (program_code r))),
       course_type := str_apply str_strip (Str (astype_str (course_type r)))\<rparr>"

text \<open>Upper-case \<open>course_code\<close> and \<open>program_code\<close>, title-case \<open>course_type\<close>.\<close>

definition case_course :: "course_row \<Rightarrow> course_row" where
  "case_course r =
     r\<lparr>course_code := str_apply str_upper (course_code r),
       program_code := str_apply str_upper (program_code r),
       course_type := str_apply str_title (course_type r)\<rparr>"

text \<open>
  \<open>preprocess_courses\<close>. The counts it logs and the check of the credits against
  \<open>VALID_CREDITS\<close>, which only logs, change no row and are left out; so is the row index
  that \<open>reset_index\<close> renumbers.
\<close>

definition preprocess_courses :: "course_row dataframe \<Rightarrow> py_error + course_row dataframe" where
  "preprocess_courses df0 =
     (case dropna course_field required df0 of
        Inl e \<Rightarrow> Inl e
      | Inr df1 \<Rightarrow>
          let df2 = df1\<lparr>rows := map (case_course \<circ> strip_course) (rows df1)\<rparr>;
              df3 = df2\<lparr>rows := drop_duplicates course_code (rows df2)\<rparr>;
              df4 = df3\<lparr>rows := filter (\<lambda>r. isin (program_code r) VALID_PROGRAM_CODES) (rows df3)\<rparr>;
              df5 = df4\<lparr>rows := filter (\<lambda>r. isin (course_type r) VALID_COURSE_TYPES) (rows df4)\<rparr>
          in Inr df5)"

subsection \<open>Prerequisites\<close>

record prereq_row =
  p_course_code :: cell
  required_course_code :: cell

definition prereq_field :: "string \<Rightarrow> prereq_row \<Rightarrow> cell" where
  "prereq_field c =
     (if c = ''course_code'' then p_course_code
      else if c = ''required_course_code'' then required_course_code
      else (\<lambda>r. Null))"

definition prereq_column :: "prereq_row dataframe \<Rightarrow> string \<Rightarrow> py_error + cell list" where
  "prereq_column df c =
     (if c \<in> set (columns df) then Inr (map (prereq_field c) (rows df)) else Inl (KeyError [c]))"

definition upper_prereq :: "prereq_row \<Rightarrow> prereq_row" where
  "upper_prereq r =
     r\<lparr>p_course_code :=
         str_apply str_upper (str_apply str_strip (Str (astype_str (p_course_code r)))),
       required_course_code :=
         str_apply str_upper (str_apply str_strip (Str (astype_str (required_course_code r))))\<rparr>"

definition preprocess_prerequisites ::
    "prereq_row dataframe \<Rightarrow> cell set \<Rightarrow> py_error + prereq_row dataframe" where
  "preprocess_prerequisites df0 valid_course_codes =
     (case dropna prereq_field [''course_code'', ''required_course_code''] df0 of
        Inl e \<Rightarrow> Inl e
      | Inr df1 \<Rightarrow>
          let df2 = df1\<lparr>rows := map upper_prereq (rows df1)\<rparr>;
              df3 = df2\<lparr>rows :=
                      drop_duplicates (\<lambda>r. (p_course_code r, required_course_code r)) (rows df2)\<rparr>;
              df4 = df3\<lparr>rows :=
                      filter (\<lambda>r. p_course_code r \<in> valid_course_codes
                                  \<and> required_course_code r \<in> valid_course_codes) (rows df3)\<rparr>
          in Inr df4)"

subsection \<open>Both tables\<close>

record tables =
  courses :: "course_row dataframe"
  prerequisites :: "prereq_row dataframe"

definition preprocess_data :: "tables \<Rightarrow> py_error + tables" where
  "preprocess_data raw =
     (case preprocess_courses (courses raw) of
        Inl e \<Rightarrow> Inl e
      | Inr courses_clean \<Rightarrow>
          let valid_codes = set (map course_code (rows courses_clean))
          in case preprocess_prerequisites (prerequisites raw) valid_codes of
               Inl e \<Rightarrow> Inl e
             | Inr prereqs_clean \<Rightarrow>
                 Inr \<lparr>courses = courses_clean, prerequisites = prereqs_clean\<rparr>)"

section \<open>Fairness analysis: program coverage (pipeline_dag.py, task_bias_detection, part 1)\<close>

text \<open>
  The percentage is computed in Python floats, that is IEEE 754 binary64 numbers. A
  finite double is kept as the rational number it denotes, and each operation is the
  exact operation followed by \<open>round_double\<close>, rounding to the nearest double with ties
  to the even significand: a significand of 53 bits at the exponent of the argument,
  and the fixed spacing \<open>2 powi (- 1074)\<close> below the smallest normal number. The
  quantities rounded here are at most a little above 100, so overflow to infinity
  does not arise and is not modelled.
\<close>

definition round_half_even :: "rat \<Rightarrow> int" where
  "round_half_even q =
     (let f = \<lfloor>q\<rfloor>; d = q - of_int f
      in if d < 1 / 2 then f else if 1 / 2 < d then f + 1 else if even f then f else f + 1)"

text \<open>The binary exponent of a non-zero number: \<open>2 powi e \<le> \<bar>q\<bar> < 2 powi (e + 1)\<close>.\<close>

definition float_exponent :: "rat \<Rightarrow> int" where
  "float_exponent q =
     (let (a, b) = quotient_of \<bar>q\<bar>; d = bitlen a - bitlen b
      in if 2 powi d \<le> \<bar>q\<bar> then d else d - 1)"

definition round_double :: "rat \<Rightarrow> rat" where
  "round_double q =
     (if q = 0 then 0
      else let e = max (float_exponent q) (- 1022); ulp = 2 powi (e - 52)
           in of_int (round_half_even (q / ulp)) * ulp)"

text \<open>
  \<open>round(x, 2)\<close> on a float: CPython writes the exact value of \<open>x\<close> as a decimal with two
  digits after the point, correctly rounded with ties to even, and reads that decimal
  back as the nearest double.
\<close>

definition py_round2 :: "rat \<Rightarrow> rat" where
  "py_round2 x = round_double (of_int (round_half_even (x * 100)) / 100)"

datatype bias_flag =
    LOW_COVERAGE string rat nat
  | MISSING_PROGRAM string
  | CREDIT_IMBALANCE rat rat

record bias_report =
  program_coverage :: "(string \<times> nat \<times> rat) list"
  bias_flags :: "bias_flag list"

definition expected_programs :: "string list" where
  "expected_programs = [''MS_DAE'', ''MS_DS'', ''MS_CS'', ''MS_DA'', ''MS_IS'']"

text \<open>\<open>program_counts.get(program, 0)\<close> over \<open>value_counts()\<close> of the column.\<close>

definition program_count :: "cell list \<Rightarrow> string \<Rightarrow> nat" where
  "program_count col program = length (filter (\<lambda>c. c = Str program) col)"

text \<open>
  \<open>round((count / total_courses) * 100, 2) if total_courses else 0\<close>: the quotient of the
  two integers is rounded to a double, so is its product with 100, and the result is
  rounded to two decimals.
\<close>

definition coverage_percentage :: "nat \<Rightarrow> nat \<Rightarrow> rat" where
  "coverage_percentage cnt total_courses =
     (if total_courses \<noteq> 0
      then py_round2 (round_double (round_double (of_nat cnt / of_nat total_courses) * 100))
      else 0)"

text \<open>One pass of the loop body over \<open>expected_programs\<close>.\<close>

definition coverage_step :: "cell list \<Rightarrow> nat \<Rightarrow> string \<Rightarrow> bias_report \<Rightarrow> bias_report" where
  "coverage_step col total_courses program rep =
     (let cnt = program_count col program;
          percentage = coverage_percentage cnt total_courses;
          rep1 = rep\<lparr>program_coverage := program_coverage rep @ [(program, cnt, percentage)]\<rparr>;
          rep2 = (if percentage < 10
                  then rep1\<lparr>bias_flags := bias_flags rep1 @ [LOW_COVERAGE program percentage cnt]\<rparr>
                  else rep1)
      in if cnt = 0
         then rep2\<lparr>bias_flags := bias_flags rep2 @ [MISSING_PROGRAM program]\<rparr>
         else rep2)"

fun coverage_loop :: "cell list \<Rightarrow> nat \<Rightarrow> string list \<Rightarrow> bias_report \<Rightarrow> bias_report" where
  "coverage_loop col total_courses [] rep = rep"
| "coverage_loop col total_courses (program # ps) rep =
     coverage_loop col total_courses ps (coverage_step col total_courses program rep)"

definition program_coverage_section :: "course_row dataframe \<Rightarrow> py_error + bias_report" where
  "program_coverage_section course_df =
     (case course_column course_df ''program_code'' of
        Inl e \<Rightarrow> Inl e
      | Inr col \<Rightarrow>
          Inr (coverage_loop col (length (rows course_df)) expected_programs
                 \<lparr>program_coverage = [], bias_flags = []\<rparr>))"

section \<open>Schema validator (validate\_data.py)\<close>

text \<open>
  A violation is one of the dictionaries the checks append; the constructor is the value
  under the key \<open>check\<close>, its arguments are the other entries.
\<close>

datatype violation =
    required_columns "string list"
  | no_nulls string nat
  | unique_course_code nat
  | valid_program_code "cell list"
  | valid_course_type "cell list"
  | positive_credits
  | unique_prereq_pairs nat
  | no_self_reference "cell list"
  | valid_fk_references

text \<open>\<open>Series.isnull().sum()\<close> and \<open>Series.duplicated().sum()\<close>.\<close>

definition null_count :: "cell list \<Rightarrow> nat" where
  "null_count col = length (filter (\<lambda>c. c = Null) col)"

definition duplicated_count :: "'a list \<Rightarrow> nat" where
  "duplicated_count col = length col - length (remdups col)"

text \<open>
  \<open>Series <= 0\<close>, element by element: an integer is compared, a missing value compares
  false, a string cannot be compared with an integer and raises \<open>TypeError\<close>.
\<close>

fun le_zero :: "cell \<Rightarrow> py_error + bool" where
  "le_zero (Num i) = Inr (i \<le> 0)"
| "le_zero Null = Inr False"
| "le_zero (Str s) = Inl TypeError"

fun any_le_zero :: "cell list \<Rightarrow> py_error + bool" where
  "any_le_zero [] = Inr False"
| "any_le_zero (c # cs) =
     (case le_zero c of
        Inl e \<Rightarrow> Inl e
      | Inr b \<Rightarrow> (case any_le_zero cs of Inl e \<Rightarrow> Inl e | Inr b' \<Rightarrow> Inr (b \<or> b')))"

text \<open>
  \<open>validate_courses\<close>. The two set expressions over the required columns are read in
  the order of the list \<open>required\<close>. After the two guarded checks, every check reads its
  column with \<open>df[...]\<close>, which raises \<open>KeyError\<close> when the column is absent.
\<close>

definition validate_courses :: "course_row dataframe \<Rightarrow> py_error + violation list" where
  "validate_courses df =
     (let missing_cols = filter (\<lambda>c. c \<notin> set (columns df)) required;
          v1 = (if missing_cols \<noteq> [] then [required_columns missing_cols] else []);
          v2 = v1 @ concat (map (\<lambda>col. let n = null_count (map (course_field col) (rows df))
                                        in if n \<noteq> 0 then [no_nulls col n] else [])
                              (filter (\<lambda>c. c \<in> set (columns df)) required))
      in case course_column df ''course_code'' of
           Inl e \<Rightarrow> Inl e
         | Inr codes \<Rightarrow>
      let dupes = duplicated_count codes;
          v3 = v2 @ (if dupes \<noteq> 0 then [unique_course_code dupes] else [])
      in case course_column df ''program_code'' of
           Inl e \<Rightarrow> Inl e
         | Inr programs \<Rightarrow>
      let invalid = filter (\<lambda>c. \<not> isin c VALID_PROGRAM_CODES) programs;
          v4 = v3 @ (if invalid \<noteq> [] then [valid_program_code (unique invalid)] else [])
      in case course_column df ''course_type'' of
           Inl e \<Rightarrow> Inl e
         | Inr types \<Rightarrow>
      let invalid = filter (\<lambda>c. \<not> isin c VALID_COURSE_TYPES) types;
          v5 = v4 @ (if invalid \<noteq> [] then [valid_course_type (unique invalid)] else [])
      in case course_column df ''credits'' of
           Inl e \<Rightarrow> Inl e
         | Inr creds \<Rightarrow>
      (case any_le_zero creds of
         Inl e \<Rightarrow> Inl e
       | Inr b \<Rightarrow> Inr (v5 @ (if b then [positive_credits] else []))))"

text \<open>
  Element-wise \<open>==\<close> of two columns: a missing value equals nothing, not even another
  missing value.
\<close>

definition cell_eq :: "cell \<Rightarrow> cell \<Rightarrow> bool" where
  "cell_eq a b = (a \<noteq> Null \<and> b \<noteq> Null \<and> a = b)"

text \<open>
  \<open>validate_prerequisites\<close> returns at once when a required column is missing; past
  that point both columns exist and no read can fail.
\<close>

definition validate_prerequisites :: "prereq_row dataframe \<Rightarrow> cell set \<Rightarrow> py_error + violation list" where
  "validate_prerequisites df valid_codes =
     (let required_cols = [''course_code'', ''required_course_code''];
          missing_cols = filter (\<lambda>c. c \<notin> set (columns df)) required_cols
      in if missing_cols \<noteq> [] then Inr [required_columns missing_cols]
         else
           let v1 = concat (map (\<lambda>col. let n = null_count (map (prereq_field col) (rows df))
                                        in if n \<noteq> 0 then [no_nulls col n] else [])
                              required_cols);
               dupes = duplicated_count
                         (map (\<lambda>r. (p_course_code r, required_course_code r)) (rows df));
               v2 = v1 @ (if dupes \<noteq> 0 then [unique_prereq_pairs dupes] else []);
               self_refs = filter (\<lambda>r. cell_eq (p_course_code r) (required_course_code r)) (rows df);
               v3 = v2 @ (if self_refs \<noteq> [] then [no_self_reference (map p_course_code self_refs)]
                          else []);
               orphaned_course = map (\<lambda>r. p_course_code r \<notin> valid_codes) (rows df);
               orphaned_req = map (\<lambda>r. required_course_code r \<notin> valid_codes) (rows df)
           in Inr (v3 @ (if list_ex id orphaned_course \<or> list_ex id orphaned_req
                         then [valid_fk_references] else [])))"

subsection \<open>Statistics\<close>

text \<open>
  The report of \<open>generate_statistics\<close>, without its time stamp and without the value
  of \<open>most_required_course\<close>, whose choice among equally frequent courses pandas
  leaves open; that entry is computed only when the prerequisite table has a row, and
  then \<open>idxmax\<close> raises \<open>ValueError\<close> if no required course is present. \<open>value_counts\<close>
  counts the values that are present; the dictionary is kept as an association list in
  order of first appearance. The mean skips missing values, is \<open>NaN\<close> (here \<open>None\<close>)
  when nothing is left, and raises \<open>TypeError\<close> on a string.
\<close>

record statistics =
  total_courses :: nat
  by_program :: "(cell \<times> nat) list"
  by_type :: "(cell \<times> nat) list"
  avg_credits :: "rat option"
  unique_programs :: nat
  total_prereq_pairs :: nat
  courses_with_prereqs :: nat

definition value_counts :: "cell list \<Rightarrow> (cell \<times> nat) list" where
  "value_counts col =
     map (\<lambda>v. (v, length (filter (\<lambda>c. c = v) col))) (unique (filter (\<lambda>c. c \<noteq> Null) col))"

definition nunique :: "cell list \<Rightarrow> nat" where
  "nunique col = length (unique (filter (\<lambda>c. c \<noteq> Null) col))"

fun numbers :: "cell list \<Rightarrow> py_error + int list" where
  "numbers [] = Inr []"
| "numbers (Null # cs) = numbers cs"
| "numbers (Num i # cs) = (case numbers cs of Inl e \<Rightarrow> Inl e | Inr is \<Rightarrow> Inr (i # is))"
| "numbers (Str s # cs) = Inl TypeError"

definition mean :: "cell list \<Rightarrow> py_error + rat option" where
  "mean col =
     (case numbers col of
        Inl e \<Rightarrow> Inl e
      | Inr is \<Rightarrow> Inr (if is = [] then None else Some (of_int (sum_list is) / of_nat (length is))))"

definition generate_statistics :: "tables \<Rightarrow> py_error + statistics" where
  "generate_statistics cleaned =
     (case course_column (courses cleaned) ''program_code'' of
        Inl e \<Rightarrow> Inl e
      | Inr programs \<Rightarrow>
     (case course_column (courses cleaned) ''course_type'' of
        Inl e \<Rightarrow> Inl e
      | Inr types \<Rightarrow>
     (case course_column (courses cleaned) ''credits'' of
        Inl e \<Rightarrow> Inl e
      | Inr creds \<Rightarrow>
     (case mean creds of
        Inl e \<Rightarrow> Inl e
      | Inr avg \<Rightarrow>
     (case prereq_column (prerequisites cleaned) ''course_code'' of
        Inl e \<Rightarrow> Inl e
      | Inr pcodes \<Rightarrow>
     (case (if rows (prerequisites cleaned) = [] then Inr [Null]
            else prereq_column (prerequisites cleaned) ''required_course_code'') of
        Inl e \<Rightarrow> Inl e
      | Inr rcodes \<Rightarrow>
         if rows (prerequisites cleaned) \<noteq> [] \<and> value_counts rcodes = []
         then Inl ValueError_empty_argmax
         else
         Inr \<lparr>total_courses = length (rows (courses cleaned)),
              by_program = value_counts programs,
              by_type = value_counts types,
              avg_credits = avg,
              unique_programs = nunique programs,
              total_prereq_pairs = length (rows (prerequisites cleaned)),
              courses_with_prereqs = nunique pcodes\<rparr>))))))"

text \<open>
  \<open>validate_data\<close>: its docstring says it raises \<open>ValueError\<close> when violations are
  found, and it does, with their number in the message. Writing the report to
  \<open>stats_report.json\<close> is left out.
\<close>

definition validate_data :: "tables \<Rightarrow> py_error + statistics" where
  "validate_data cleaned =
     (case course_column (courses cleaned) ''course_code'' of
        Inl e \<Rightarrow> Inl e
      | Inr codes \<Rightarrow>
     (let valid_codes = set codes in
      case validate_courses (courses cleaned) of
        Inl e \<Rightarrow> Inl e
      | Inr course_violations \<Rightarrow>
     (case validate_prerequisites (prerequisites cleaned) valid_codes of
        Inl e \<Rightarrow> Inl e
      | Inr prereq_violations \<Rightarrow>
     (let all_violations = course_violations @ prereq_violations
      in if all_violations \<noteq> [] then Inl (ValueError (length all_violations))
         else generate_statistics cleaned))))"

section \<open>Anomaly detection in the database (detect\_anomalies.py)\<close>

text \<open>
  The two checks are SQL queries. A table is the list of its rows; the order in which a
  query returns its rows is the order of the nested scans written below, which SQL
  leaves open. The columns the queries read hold no \<open>NULL\<close>. A row of
  \<open>prerequisites\<close> is the pair \<open>(course_code, required_course_code)\<close>.
\<close>

type_synonym edge = "string \<times> string"

subsection \<open>Completions without the prerequisite\<close>

record student =
  s_id :: int
  email :: string

record student_course =
  student_id :: int
  sc_course_code :: string

record missing_prerequisite =
  s_email :: string
  enrolled_course :: string
  missing_prereq :: string

text \<open>
  \<open>detect_missing_prerequisites\<close>: \<open>student_courses sc JOIN students s JOIN
  prerequisites p\<close>, filtered by the \<open>NOT EXISTS\<close> subquery over \<open>student_courses sc2\<close>.
\<close>

definition detect_missing_prerequisites ::
    "student_course list \<Rightarrow> student list \<Rightarrow> edge list \<Rightarrow> missing_prerequisite list" where
  "detect_missing_prerequisites student_courses students prerequisites_tbl =
     [\<lparr>s_email = email s, enrolled_course = sc_course_code sc, missing_prereq = snd p\<rparr>.
        sc \<leftarrow> student_courses,
        s \<leftarrow> students, student_id sc = s_id s,
        p \<leftarrow> prerequisites_tbl, sc_course_code sc = fst p,
        \<not> list_ex (\<lambda>sc2. student_id sc2 = student_id sc \<and> sc_course_code sc2 = snd p)
              student_courses]"

subsection \<open>Circular prerequisites\<close>

text \<open>A row of the recursive common table expression \<open>prereq_chain\<close>.\<close>

record chain_row =
  pc_course_code :: string
  pc_required_course_code :: string
  visited :: "string list"
  is_cycle :: bool

text \<open>The non-recursive term: one row for every prerequisite.\<close>

definition anchor_rows :: "edge list \<Rightarrow> chain_row list" where
  "anchor_rows prerequisites_tbl =
     map (\<lambda>p. \<lparr>pc_course_code = fst p, pc_required_course_code = snd p,
                visited = [fst p], is_cycle = False\<rparr>) prerequisites_tbl"

text \<open>
  The recursive term, evaluated over the working table: \<open>prerequisites p JOIN
  prereq_chain pc ON p.course_code = pc.required_course_code WHERE NOT pc.is_cycle\<close>.
\<close>

definition recursive_rows :: "edge list \<Rightarrow> chain_row list \<Rightarrow> chain_row list" where
  "recursive_rows prerequisites_tbl working =
     [\<lparr>pc_course_code = fst p, pc_required_course_code = snd p,
       visited = visited pc @ [fst p], is_cycle = (fst p \<in> set (visited pc))\<rparr>.
        pc \<leftarrow> working, p \<leftarrow> prerequisites_tbl,
        fst p = pc_required_course_code pc, \<not> is_cycle pc]"

text \<open>
  The number of further joins a row can take part in: none once it is flagged, and
  otherwise bounded by the courses with a prerequisite that it has not visited.
\<close>

definition row_fuel :: "edge list \<Rightarrow> chain_row \<Rightarrow> nat" where
  "row_fuel prerequisites_tbl pc =
     (if is_cycle pc then 0 else Suc (card (fst ` set prerequisites_tbl - set (visited pc))))"

definition table_fuel :: "edge list \<Rightarrow> chain_row list \<Rightarrow> nat" where
  "table_fuel prerequisites_tbl working =
     (if working = [] then 0 else Suc (Max (row_fuel prerequisites_tbl ` set working)))"

lemma set_recursive_rows:
  "set (recursive_rows prerequisites_tbl working) =
     {\<lparr>pc_course_code = fst p, pc_required_course_code = snd p,
       visited = visited pc @ [fst p], is_cycle = (fst p \<in> set (visited pc))\<rparr> | pc p.
        pc \<in> set working \<and> p \<in> set prerequisites_tbl
        \<and> fst p = pc_required_course_code pc \<and> \<not> is_cycle pc}"
  unfolding recursive_rows_def by (auto split: if_splits) force+

lemma recursive_rows_fuel:
  assumes "r \<in> set (recursive_rows prerequisites_tbl working)"
  shows "\<exists>pc \<in> set working. row_fuel prerequisites_tbl r < row_fuel prerequisites_tbl pc"
proof -
  from assms obtain pc p where pc: "pc \<in> set working" "\<not> is_cycle pc"
    and p: "p \<in> set prerequisites_tbl"
    and r: "r = \<lparr>pc_course_code = fst p, pc_required_course_code = snd p,
                 visited = visited pc @ [fst p], is_cycle = (fst p \<in> set (visited pc))\<rparr>"
    unfolding set_recursive_rows by blast
  have "row_fuel prerequisites_tbl r < row_fuel prerequisites_tbl pc"
  proof (cases "fst p \<in> set (visited pc)")
    case True
    then show ?thesis using pc(2) by (simp add: r row_fuel_def)
  next
    case False
    have "fst ` set prerequisites_tbl - set (visited pc @ [fst p])
            \<subset> fst ` set prerequisites_tbl - set (visited pc)"
      using False p by auto
    then have "card (fst ` set prerequisites_tbl - set (visited pc @ [fst p]))
                 < card (fst ` set prerequisites_tbl - set (visited pc))"
      by (intro psubset_card_mono) auto
    then show ?thesis using False pc(2) by (simp add: r row_fuel_def)
  qed
  with pc(1) show ?thesis by blast
qed

lemma recursive_rows_table_fuel:
  assumes "working \<noteq> []"
  shows "table_fuel prerequisites_tbl (recursive_rows prerequisites_tbl working)
           < table_fuel prerequisites_tbl working"
proof (cases "recursive_rows prerequisites_tbl working = []")
  case True
  then show ?thesis using assms by (simp add: table_fuel_def)
next
  case False
  let ?next = "recursive_rows prerequisites_tbl working"
  have "Max (row_fuel prerequisites_tbl ` set ?next) \<in> row_fuel prerequisites_tbl ` set ?next"
    using False by (intro Max_in) auto
  then obtain r where r: "r \<in> set ?next"
    and m: "Max (row_fuel prerequisites_tbl ` set ?next) = row_fuel prerequisites_tbl r"
    by auto
  from recursive_rows_fuel [OF r] obtain pc where pc: "pc \<in> set working"
    and lt: "row_fuel prerequisites_tbl r < row_fuel prerequisites_tbl pc"
    by blast
  have "row_fuel prerequisites_tbl pc \<le> Max (row_fuel prerequisites_tbl ` set working)"
    using pc by (intro Max_ge) auto
  with lt m show ?thesis using assms False by (simp add: table_fuel_def)
qed

text \<open>
  \<open>WITH RECURSIVE ... UNION ALL\<close>: the rows of the working table go to the result and
  the recursive term over them is the next working table, until it is empty.
\<close>

function union_all :: "edge list \<Rightarrow> chain_row list \<Rightarrow> chain_row list" where
  "union_all prerequisites_tbl working =
     (if working = [] then []
      else working @ union_all prerequisites_tbl (recursive_rows prerequisites_tbl working))"
  by pat_completeness auto
termination
  by (relation "measure (\<lambda>(prerequisites_tbl, working). table_fuel prerequisites_tbl working)")
    (auto simp: recursive_rows_table_fuel)

declare union_all.simps [simp del]

definition prereq_chain :: "edge list \<Rightarrow> chain_row list" where
  "prereq_chain prerequisites_tbl = union_all prerequisites_tbl (anchor_rows prerequisites_tbl)"

text \<open>\<open>SELECT DISTINCT course_code, required_course_code ... WHERE is_cycle = TRUE\<close>.\<close>

definition detect_circular_prerequisites :: "edge list \<Rightarrow> edge list" where
  "detect_circular_prerequisites prerequisites_tbl =
     remdups (map (\<lambda>pc. (pc_course_code pc, pc_required_course_code pc))
                (filter is_cycle (prereq_chain prerequisites_tbl)))"

section \<open>Auxiliary definitions\<close>

text \<open>The flags one program contributes, in the order the loop body appends them.\<close>

definition flags_for :: "cell list \<Rightarrow> nat \<Rightarrow> string \<Rightarrow> bias_flag list" where
  "flags_for col tot p =
     (if coverage_percentage (program_count col p) tot < 10
      then [LOW_COVERAGE p (coverage_percentage (program_count col p) tot) (program_count col p)]
      else []) @
     (if program_count col p = 0 then [MISSING_PROGRAM p] else [])"

subsection \<open>Sample course tables\<close>

definition all_columns :: "string list" where
  "all_columns = [''course_code'', ''course_name'', ''credits'', ''program_code'', ''course_type'']"

definition mk_course :: "string \<Rightarrow> string \<Rightarrow> course_row" where
  "mk_course code prog = \<lparr>course_code = Str code, course_name = Str ''Course'', credits = Num 4,
     program_code = Str prog, course_type = Str ''Core''\<rparr>"

definition one_course :: "course_row dataframe" where
  "one_course = \<lparr>columns = all_columns, rows = [mk_course ''DS5110'' ''MS_DS'']\<rparr>"

definition ten_courses :: "course_row dataframe" where
  "ten_courses = \<lparr>columns = all_columns,
     rows = mk_course ''CS5800'' ''MS_CS'' #
            map (\<lambda>c. mk_course c ''MS_DS'')
              [''DS1'', ''DS2'', ''DS3'', ''DS4'', ''DS5'', ''DS6'', ''DS7'', ''DS8'', ''DS9'']\<rparr>"

definition one_course_report :: bias_report where
  "one_course_report =
     \<lparr>program_coverage =
        [(''MS_DAE'', 0, 0), (''MS_DS'', 1, 100), (''MS_CS'', 0, 0), (''MS_DA'', 0, 0), (''MS_IS'', 0, 0)],
      bias_flags =
        [LOW_COVERAGE ''MS_DAE'' 0 0, MISSING_PROGRAM ''MS_DAE'',
         LOW_COVERAGE ''MS_CS'' 0 0, MISSING_PROGRAM ''MS_CS'',
         LOW_COVERAGE ''MS_DA'' 0 0, MISSING_PROGRAM ''MS_DA'',
         LOW_COVERAGE ''MS_IS'' 0 0, MISSING_PROGRAM ''MS_IS'']\<rparr>"

definition ten_courses_report :: bias_report where
  "ten_courses_report =
     \<lparr>program_coverage =
        [(''MS_DAE'', 0, 0), (''MS_DS'', 9, 90), (''MS_CS'', 1, 10), (''MS_DA'', 0, 0), (''MS_IS'', 0, 0)],
      bias_flags =
        [LOW_COVERAGE ''MS_DAE'' 0 0, MISSING_PROGRAM ''MS_DAE'',
         LOW_COVERAGE ''MS_DA'' 0 0, MISSING_PROGRAM ''MS_DA'',
         LOW_COVERAGE ''MS_IS'' 0 0, MISSING_PROGRAM ''MS_IS'']\<rparr>"

subsection \<open>Canonical form\<close>

text \<open>
  What the normalizer establishes: a stripped string has no whitespace at either end; a
  canonical course row has a stripped, upper-cased code, a stripped name, credits that
  are present, and a program and a type of the enumerated sets; a canonical prerequisite
  row has two stripped, upper-cased codes.
\<close>

definition stripped :: "string \<Rightarrow> bool" where
  "stripped s \<longleftrightarrow> s = [] \<or> (\<not> is_space (hd s) \<and> \<not> is_space (last s))"

definition canonical_course :: "course_row \<Rightarrow> bool" where
  "canonical_course r \<longleftrightarrow>
     (\<exists>code name. course_code r = Str (str_upper code) \<and> stripped code
        \<and> course_name r = Str name \<and> stripped name)
     \<and> credits r \<noteq> Null
     \<and> isin (program_code r) VALID_PROGRAM_CODES
     \<and> isin (course_type r) VALID_COURSE_TYPES"

definition canonical_prereq :: "prereq_row \<Rightarrow> bool" where
  "canonical_prereq r \<longleftrightarrow>
     (\<exists>a. p_course_code r = Str (str_upper a) \<and> stripped a)
     \<and> (\<exists>b. required_course_code r = Str (str_upper b) \<and> stripped b)"

subsection \<open>Sample raw tables\<close>

definition raw_courses :: "course_row dataframe" where
  "raw_courses = \<lparr>columns = all_columns,
     rows = [\<lparr>course_code = Str '' ie6400 '', course_name = Str ''Foundations '', credits = Num 4,
              program_code = Str ''ms_dae'', course_type = Str ''core''\<rparr>,
             \<lparr>course_code = Str ''IE6400'', course_name = Str ''Foundations II'', credits = Num 4,
              program_code = Str ''MS_DAE'', course_type = Str ''Core''\<rparr>,
             \<lparr>course_code = Str ''ie7275'', course_name = Str ''Data Mining'', credits = Num 3,
              program_code = Str ''MS_DAE'', course_type = Str ''ELECTIVE''\<rparr>,
             \<lparr>course_code = Str ''CS5800'', course_name = Null, credits = Num 4,
              program_code = Str ''MS_CS'', course_type = Str ''Core''\<rparr>,
             \<lparr>course_code = Str ''CS9999'', course_name = Str ''Fake'', credits = Num 4,
              program_code = Str ''MS_FAKE'', course_type = Str ''Core''\<rparr>]\<rparr>"

definition clean_courses :: "course_row dataframe" where
  "clean_courses = \<lparr>columns = all_columns,
     rows = [\<lparr>course_code = Str ''IE6400'', course_name = Str ''Foundations'', credits = Num 4,
              program_code = Str ''MS_DAE'', course_type = Str ''Core''\<rparr>,
             \<lparr>course_code = Str ''IE7275'', course_name = Str ''Data Mining'', credits = Num 3,
              program_code = Str ''MS_DAE'', course_type = Str ''Elective''\<rparr>]\<rparr>"

definition raw_prereqs :: "prereq_row dataframe" where
  "raw_prereqs = \<lparr>columns = [''course_code'', ''required_course_code''],
     rows = [\<lparr>p_course_code = Str '' ie7275'', required_course_code = Str ''ie6400''\<rparr>,
             \<lparr>p_course_code = Str ''IE7275'', required_course_code = Str ''IE6400 ''\<rparr>,
             \<lparr>p_course_code = Str ''CS9999'', required_course_code = Str ''IE6400''\<rparr>,
             \<lparr>p_course_code = Null, required_course_code = Str ''IE6400''\<rparr>]\<rparr>"

definition clean_prereqs :: "prereq_row dataframe" where
  "clean_prereqs = \<lparr>columns = [''course_code'', ''required_course_code''],
     rows = [\<lparr>p_course_code = Str ''IE7275'', required_course_code = Str ''IE6400''\<rparr>]\<rparr>"

definition raw_tables :: tables where
  "raw_tables = \<lparr>courses = raw_courses, prerequisites = raw_prereqs\<rparr>"

definition clean_tables :: tables where
  "clean_tables = \<lparr>courses = clean_courses, prerequisites = clean_prereqs\<rparr>"

text \<open>A duplicated code whose first row has an unknown program and whose second row is valid.\<close>

definition first_row :: course_row where
  "first_row = \<lparr>course_code = Str ''CS5800'', course_name = Str ''Algorithms (old)'', credits = Num 4,
     program_code = Str ''MS_FAKE'', course_type = Str ''Core''\<rparr>"

definition later_row :: course_row where
  "later_row = \<lparr>course_code = Str ''CS5800'', course_name = Str ''Algorithms'', credits = Num 4,
     program_code = Str ''MS_CS'', course_type = Str ''Core''\<rparr>"

definition shadowed_courses :: "course_row dataframe" where
  "shadowed_courses = \<lparr>columns = all_columns, rows = [first_row, later_row]\<rparr>"

subsection \<open>Sample tables for the validator\<close>

text \<open>A course table without the column \<open>course_code\<close>; its rows carry no such cell.\<close>

definition no_code_courses :: "course_row dataframe" where
  "no_code_courses = \<lparr>columns = [''course_name'', ''credits'', ''program_code'', ''course_type''],
     rows = [\<lparr>course_code = Null, course_name = Str ''Foundations'', credits = Num 4,
              program_code = Str ''MS_DAE'', course_type = Str ''Core''\<rparr>]\<rparr>"

definition no_code_prereqs :: "prereq_row dataframe" where
  "no_code_prereqs = \<lparr>columns = [''required_course_code''],
     rows = [\<lparr>p_course_code = Null, required_course_code = Str ''IE6400''\<rparr>]\<rparr>"

text \<open>
  Tables the normalizer returns unchanged, with one course whose credits are 0: the
  normalizer only logs the credits, the validator requires them to be positive.
\<close>

definition zero_credit_tables :: tables where
  "zero_credit_tables =
     \<lparr>courses = \<lparr>columns = all_columns,
                  rows = [\<lparr>course_code = Str ''IE6400'', course_name = Str ''Foundations'',
                           credits = Num 0, program_code = Str ''MS_DAE'',
                           course_type = Str ''Core''\<rparr>]\<rparr>,
      prerequisites = \<lparr>columns = [''course_code'', ''required_course_code''], rows = []\<rparr>\<rparr>"

definition clean_statistics :: statistics where
  "clean_statistics =
     \<lparr>total_courses = 2, by_program = [(Str ''MS_DAE'', 2)],
      by_type = [(Str ''Core'', 1), (Str ''Elective'', 1)],
      avg_credits = Some (7 / 2), unique_programs = 1,
      total_prereq_pairs = 1, courses_with_prereqs = 1\<rparr>"

subsection \<open>Prerequisite graph\<close>

text \<open>
  One join of the recursive term as a relation between rows, the rows that can be
  reached from the non-recursive term, and what it means for a prerequisite to lie on a
  directed cycle of the requires relation: its target leads back to its source.
\<close>

definition chain_step :: "edge list \<Rightarrow> (chain_row \<times> chain_row) set" where
  "chain_step es = {(pc, r). r \<in> set (recursive_rows es [pc])}"

definition chain_rows :: "edge list \<Rightarrow> chain_row set" where
  "chain_rows es = (chain_step es)\<^sup>* `` set (anchor_rows es)"

definition on_cycle :: "edge list \<Rightarrow> edge \<Rightarrow> bool" where
  "on_cycle es e \<longleftrightarrow> e \<in> set es \<and> (snd e, fst e) \<in> (set es)\<^sup>*"

definition three_cycle :: "edge list" where
  "three_cycle = [(''A'', ''B''), (''B'', ''C''), (''C'', ''A'')]"

definition cycle_with_exit :: "edge list" where
  "cycle_with_exit = [(''A'', ''B''), (''B'', ''A''), (''A'', ''D'')]"

definition no_cycle :: "edge list" where
  "no_cycle = [(''A'', ''B''), (''B'', ''C''), (''A'', ''C'')]"

subsection \<open>Completion audit\<close>

text \<open>
  The pairs the audit is about, in the words of the specification: a completion record
  and a prerequisite of the completed course such that the same student has no
  completion record for the required course. \<open>email_of\<close> reads the address of a student
  off the table \<open>students\<close>; \<open>rows_for\<close> and \<open>pairs_for\<close> are the parts of the query and
  of the pairs that belong to one completion record.
\<close>

definition missing_prerequisite_pairs ::
    "student_course list \<Rightarrow> edge list \<Rightarrow> (student_course \<times> edge) list" where
  "missing_prerequisite_pairs student_courses prerequisites_tbl =
     [(sc, p).
        sc \<leftarrow> student_courses,
        p \<leftarrow> prerequisites_tbl, sc_course_code sc = fst p,
        \<not> list_ex (\<lambda>sc2. student_id sc2 = student_id sc \<and> sc_course_code sc2 = snd p)
              student_courses]"

definition email_of :: "student list \<Rightarrow> int \<Rightarrow> string" where
  "email_of students i = (case filter (\<lambda>s. i = s_id s) students of [] \<Rightarrow> [] | s # ss \<Rightarrow> email s)"

definition rows_for ::
    "student_course list \<Rightarrow> edge list \<Rightarrow> string \<Rightarrow> student_course \<Rightarrow> missing_prerequisite list" where
  "rows_for student_courses prerequisites_tbl e sc =
     [\<lparr>s_email = e, enrolled_course = sc_course_code sc, missing_prereq = snd p\<rparr>.
        p \<leftarrow> prerequisites_tbl, sc_course_code sc = fst p,
        \<not> list_ex (\<lambda>sc2. student_id sc2 = student_id sc \<and> sc_course_code sc2 = snd p)
              student_courses]"

definition pairs_for ::
    "student_course list \<Rightarrow> edge list \<Rightarrow> student_course \<Rightarrow> (student_course \<times> edge) list" where
  "pairs_for student_courses prerequisites_tbl sc =
     [(sc, p).
        p \<leftarrow> prerequisites_tbl, sc_course_code sc = fst p,
        \<not> list_ex (\<lambda>sc2. student_id sc2 = student_id sc \<and> sc_course_code sc2 = snd p)
              student_courses]"

definition sample_completions :: "student_course list" where
  "sample_completions =
     [\<lparr>student_id = 1, sc_course_code = ''IE7275''\<rparr>,
      \<lparr>student_id = 2, sc_course_code = ''IE7275''\<rparr>,
      \<lparr>student_id = 2, sc_course_code = ''IE6400''\<rparr>]"

definition sample_students :: "student list" where
  "sample_students = [\<lparr>s_id = 1, email = ''a@x.edu''\<rparr>, \<lparr>s_id = 2, email = ''b@x.edu''\<rparr>]"

definition sample_prerequisites :: "edge list" where
  "sample_prerequisites = [(''IE7275'', ''IE6400'')]"

text \<open>
  The anomaly row of a student and a pair, and a completion record whose student has no
  row in \<open>sample_students\<close>.
\<close>

definition anomaly_row :: "student \<Rightarrow> student_course \<times> edge \<Rightarrow> missing_prerequisite" where
  "anomaly_row s x =
     \<lparr>s_email = email s, enrolled_course = sc_course_code (fst x), missing_prereq = snd (snd x)\<rparr>"

definition unknown_student_completions :: "student_course list" where
  "unknown_student_completions = [\<lparr>student_id = 3, sc_course_code = ''IE7275''\<rparr>]"

chapter \<open>Verification\<close>

section \<open>Column access\<close>

lemma course_field_simps [simp]:
  "course_field ''course_code'' = course_code"
  "course_field ''course_name'' = course_name"
  "course_field ''credits'' = credits"
  "course_field ''program_code'' = program_code"
  "course_field ''course_type'' = course_type"
  by (simp_all add: course_field_def)

section \<open>Normalizer\<close>

subsection \<open>Strings\<close>


lemma is_space_to_upper [simp]: "is_space (to_upper c) = is_space c"
  by (auto simp: is_space_def to_upper_def is_lower_def Let_def)

lemma to_upper_idem [simp]: "to_upper (to_upper c) = to_upper c"
  by (auto simp: to_upper_def is_lower_def Let_def)

lemma str_upper_idem [simp]: "str_upper (str_upper s) = str_upper s"
  by (simp add: str_upper_def)

lemma dropWhile_hd: "dropWhile P xs \<noteq> [] \<Longrightarrow> \<not> P (hd (dropWhile P xs))"
  by (metis hd_dropWhile)

lemma stripped_str_strip: "stripped (str_strip s)"
proof -
  let ?u = "dropWhile is_space s"
  let ?v = "dropWhile is_space (rev ?u)"
  show ?thesis
  proof (cases "?v = []")
    case True
    then show ?thesis by (simp add: stripped_def str_strip_def)
  next
    case False
    then have u: "?u \<noteq> []" by (cases "?u = []") simp_all
    have hv: "\<not> is_space (hd ?v)" using False by (rule dropWhile_hd)
    have hu: "\<not> is_space (hd ?u)" using u by (rule dropWhile_hd)
    obtain ys where ys: "rev ?u = takeWhile is_space (rev ?u) @ ?v"
      by simp
    have "last ?v = last (rev ?u)" using False ys by (metis last_appendR)
    then have lv: "last ?v = hd ?u" using u by (simp add: last_rev)
    have "hd (rev ?v) = last ?v" using False by (simp add: hd_rev)
    moreover have "last (rev ?v) = hd ?v" using False by (simp add: last_rev)
    ultimately show ?thesis using hv hu lv False
      by (simp add: stripped_def str_strip_def)
  qed
qed

lemma str_strip_stripped: "stripped s \<Longrightarrow> str_strip s = s"
proof (cases "s = []")
  case True
  then show ?thesis by (simp add: str_strip_def)
next
  case False
  assume "stripped s"
  with False have h: "\<not> is_space (hd s)" and l: "\<not> is_space (last s)"
    by (auto simp: stripped_def)
  have a: "dropWhile is_space s = s" using False h by (cases s) auto
  have "rev s \<noteq> []" using False by simp
  moreover have "hd (rev s) = last s" using False by (simp add: hd_rev)
  ultimately have "dropWhile is_space (rev s) = rev s" using l
    by (metis dropWhile_eq_Nil_conv hd_dropWhile dropWhile.simps(2) list.collapse)
  with a show ?thesis by (simp add: str_strip_def)
qed

lemma stripped_str_upper: "stripped s \<Longrightarrow> stripped (str_upper s)"
  by (auto simp: stripped_def str_upper_def hd_map last_map)

lemma str_strip_idem: "str_strip (str_strip s) = str_strip s"
  by (simp add: str_strip_stripped stripped_str_strip)

lemma str_strip_upper_strip: "str_strip (str_upper (str_strip s)) = str_upper (str_strip s)"
  by (simp add: str_strip_stripped stripped_str_upper stripped_str_strip)

lemma prereq_field_simps [simp]:
  "prereq_field ''course_code'' = p_course_code"
  "prereq_field ''required_course_code'' = required_course_code"
  by (simp_all add: prereq_field_def)

subsection \<open>Dropping duplicates and missing values\<close>

lemma drop_duplicates_from_subset: "set (drop_duplicates_from key seen rs) \<subseteq> set rs"
  by (induction rs arbitrary: seen) auto

lemma drop_duplicates_from_keys:
  "\<forall>r \<in> set (drop_duplicates_from key seen rs). key r \<notin> set seen"
proof (induction rs arbitrary: seen)
  case Nil
  then show ?case by simp
next
  case (Cons a rs)
  from Cons [of seen] Cons [of "key a # seen"] show ?case by auto
qed

lemma drop_duplicates_from_distinct: "distinct (map key (drop_duplicates_from key seen rs))"
proof (induction rs arbitrary: seen)
  case Nil
  then show ?case by simp
next
  case (Cons r rs)
  have "key r \<notin> key ` set (drop_duplicates_from key (key r # seen) rs)"
    using drop_duplicates_from_keys [of key "key r # seen" rs] by auto
  with Cons show ?case by simp
qed

lemma drop_duplicates_from_id:
  "distinct (map key rs) \<Longrightarrow> key ` set rs \<inter> set seen = {} \<Longrightarrow> drop_duplicates_from key seen rs = rs"
  by (induction rs arbitrary: seen) auto

lemma drop_duplicates_distinct: "distinct (map key (drop_duplicates key rs))"
  by (simp add: drop_duplicates_def drop_duplicates_from_distinct)

lemma drop_duplicates_subset: "set (drop_duplicates key rs) \<subseteq> set rs"
  by (simp add: drop_duplicates_def drop_duplicates_from_subset)

lemma drop_duplicates_id: "distinct (map key rs) \<Longrightarrow> drop_duplicates key rs = rs"
  by (simp add: drop_duplicates_def drop_duplicates_from_id)

subsection \<open>Canonical course rows\<close>

lemma valid_program_fixed:
  "p \<in> VALID_PROGRAM_CODES \<Longrightarrow> str_upper (str_strip p) = p"
  unfolding VALID_PROGRAM_CODES_def by (elim insertE emptyE; hypsubst; code_simp)

lemma valid_type_fixed:
  "t \<in> VALID_COURSE_TYPES \<Longrightarrow> str_title (str_strip t) = t"
  unfolding VALID_COURSE_TYPES_def by (elim insertE emptyE; hypsubst; code_simp)

lemma isin_Str: "isin c A \<Longrightarrow> \<exists>s. c = Str s \<and> s \<in> A"
  by (cases c) auto

lemma canonical_course_fixed:
  assumes "canonical_course r"
  shows "case_course (strip_course r) = r"
proof -
  from assms obtain code name p t where
    c: "course_code r = Str (str_upper code)" "stripped code"
    and n: "course_name r = Str name" "stripped name"
    and p: "program_code r = Str p" "p \<in> VALID_PROGRAM_CODES"
    and t: "course_type r = Str t" "t \<in> VALID_COURSE_TYPES"
    unfolding canonical_course_def by (blast dest: isin_Str)
  have "str_upper (str_strip (str_upper code)) = str_upper code"
    using c(2) by (simp add: str_strip_stripped stripped_str_upper)
  moreover have "str_strip name = name"
    using n(2) by (rule str_strip_stripped)
  ultimately show ?thesis
    using c(1) n(1) p t
    by (simp add: case_course_def strip_course_def valid_program_fixed valid_type_fixed)
qed

lemma canonical_course_not_null:
  "canonical_course r \<Longrightarrow> c \<in> set required \<Longrightarrow> course_field c r \<noteq> Null"
  by (auto simp: canonical_course_def required_def dest: isin_Str)

lemma dropna_Inr:
  assumes "dropna field labels df = Inr out"
  shows "set labels \<subseteq> set (columns df)"
    and "out = df\<lparr>rows := filter (\<lambda>r. \<forall>c \<in> set labels. field c r \<noteq> Null) (rows df)\<rparr>"
proof -
  from assms have e: "filter (\<lambda>c. c \<notin> set (columns df)) labels = []"
    by (auto simp: dropna_def split: list.splits)
  then show "set labels \<subseteq> set (columns df)"
    by (auto simp: filter_empty_conv)
  from assms e show "out = df\<lparr>rows := filter (\<lambda>r. \<forall>c \<in> set labels. field c r \<noteq> Null) (rows df)\<rparr>"
    by (simp add: dropna_def list_all_iff)
qed

lemma dropna_id:
  assumes "set labels \<subseteq> set (columns df)" and "\<forall>r \<in> set (rows df). \<forall>c \<in> set labels. field c r \<noteq> Null"
  shows "dropna field labels df = Inr df"
proof -
  have "filter (\<lambda>c. c \<notin> set (columns df)) labels = []"
    using assms(1) by (auto simp: filter_empty_conv)
  moreover have "filter (\<lambda>r. \<forall>c \<in> set labels. field c r \<noteq> Null) (rows df) = rows df"
    using assms(2) by (simp add: filter_id_conv)
  ultimately show ?thesis by (simp add: dropna_def list_all_iff)
qed

lemma normalised_course:
  assumes "\<forall>c \<in> set required. course_field c r \<noteq> Null"
  shows "\<exists>code name. course_code ((case_course \<circ> strip_course) r) = Str (str_upper code) \<and> stripped code
        \<and> course_name ((case_course \<circ> strip_course) r) = Str name \<and> stripped name"
    and "credits ((case_course \<circ> strip_course) r) \<noteq> Null"
proof -
  show "credits ((case_course \<circ> strip_course) r) \<noteq> Null"
    using assms by (simp add: required_def case_course_def strip_course_def)
  have "course_code ((case_course \<circ> strip_course) r) = Str (str_upper (str_strip (astype_str (course_code r))))"
    by (simp add: case_course_def strip_course_def)
  moreover have "course_name ((case_course \<circ> strip_course) r) = Str (str_strip (astype_str (course_name r)))"
    by (simp add: case_course_def strip_course_def)
  ultimately show "\<exists>code name. course_code ((case_course \<circ> strip_course) r) = Str (str_upper code) \<and> stripped code
        \<and> course_name ((case_course \<circ> strip_course) r) = Str name \<and> stripped name"
    using stripped_str_strip by blast
qed

lemma preprocess_courses_rows:
  assumes "preprocess_courses df = Inr out"
  shows "columns out = columns df"
    and "set required \<subseteq> set (columns df)"
    and "distinct (map course_code (rows out))"
    and "\<forall>r \<in> set (rows out). canonical_course r"
proof -
  from assms obtain df1 where d: "dropna course_field required df = Inr df1"
    by (auto simp: preprocess_courses_def split: sum.splits)
  note d1 = dropna_Inr [OF d]
  let ?rs2 = "map (case_course \<circ> strip_course) (rows df1)"
  let ?rs3 = "drop_duplicates course_code ?rs2"
  have out: "out = df1\<lparr>rows := filter (\<lambda>r. isin (course_type r) VALID_COURSE_TYPES)
                 (filter (\<lambda>r. isin (program_code r) VALID_PROGRAM_CODES) ?rs3)\<rparr>"
    using assms d by (simp add: preprocess_courses_def Let_def)
  show "columns out = columns df" by (simp add: out d1(2))
  show "set required \<subseteq> set (columns df)" by (rule d1(1))
  show "distinct (map course_code (rows out))"
    by (simp add: out distinct_map_filter drop_duplicates_distinct)
  have "\<forall>r \<in> set ?rs2. (\<exists>code name. course_code r = Str (str_upper code) \<and> stripped code
        \<and> course_name r = Str name \<and> stripped name) \<and> credits r \<noteq> Null"
    using normalised_course by (auto simp: d1(2) simp del: comp_apply)
  then have "\<forall>r \<in> set ?rs3. (\<exists>code name. course_code r = Str (str_upper code) \<and> stripped code
        \<and> course_name r = Str name \<and> stripped name) \<and> credits r \<noteq> Null"
    using drop_duplicates_subset [of course_code ?rs2] by blast
  then show "\<forall>r \<in> set (rows out). canonical_course r"
    by (auto simp: out canonical_course_def)
qed

lemma preprocess_courses_idempotent:
  assumes "preprocess_courses df = Inr out"
  shows "preprocess_courses out = Inr out"
proof -
  note r = preprocess_courses_rows [OF assms]
  have "dropna course_field required out = Inr out"
    using r by (intro dropna_id) (auto simp: canonical_course_not_null)
  moreover have "map (case_course \<circ> strip_course) (rows out) = rows out"
    using r(4) by (simp add: map_idI canonical_course_fixed)
  moreover have "drop_duplicates course_code (rows out) = rows out"
    using r(3) by (rule drop_duplicates_id)
  moreover have "filter (\<lambda>r. isin (program_code r) VALID_PROGRAM_CODES
                         \<and> isin (course_type r) VALID_COURSE_TYPES) (rows out) = rows out"
    using r(4) by (simp add: filter_id_conv canonical_course_def)
  ultimately show ?thesis
    by (simp add: preprocess_courses_def Let_def)
qed

subsection \<open>Canonical prerequisite rows\<close>

lemma canonical_prereq_upper: "canonical_prereq (upper_prereq r)"
  unfolding canonical_prereq_def upper_prereq_def
  using stripped_str_strip by auto

lemma canonical_prereq_fixed:
  assumes "canonical_prereq r"
  shows "upper_prereq r = r"
proof -
  from assms obtain a b where
    a: "p_course_code r = Str (str_upper a)" "stripped a"
    and b: "required_course_code r = Str (str_upper b)" "stripped b"
    unfolding canonical_prereq_def by blast
  have "str_upper (str_strip (str_upper a)) = str_upper a"
    using a(2) by (simp add: str_strip_stripped stripped_str_upper)
  moreover have "str_upper (str_strip (str_upper b)) = str_upper b"
    using b(2) by (simp add: str_strip_stripped stripped_str_upper)
  ultimately show ?thesis
    using a(1) b(1) by (simp add: upper_prereq_def)
qed

lemma canonical_prereq_not_null:
  "canonical_prereq r \<Longrightarrow> c \<in> set [''course_code'', ''required_course_code''] \<Longrightarrow> prereq_field c r \<noteq> Null"
  by (auto simp: canonical_prereq_def)

lemma preprocess_prerequisites_rows:
  assumes "preprocess_prerequisites df valid = Inr out"
  shows "columns out = columns df"
    and "set [''course_code'', ''required_course_code''] \<subseteq> set (columns df)"
    and "distinct (map (\<lambda>r. (p_course_code r, required_course_code r)) (rows out))"
    and "\<forall>r \<in> set (rows out). canonical_prereq r"
    and "\<forall>r \<in> set (rows out). p_course_code r \<in> valid \<and> required_course_code r \<in> valid"
proof -
  from assms obtain df1 where d: "dropna prereq_field [''course_code'', ''required_course_code''] df = Inr df1"
    by (auto simp: preprocess_prerequisites_def split: sum.splits)
  note d1 = dropna_Inr [OF d]
  let ?rs2 = "map upper_prereq (rows df1)"
  let ?rs3 = "drop_duplicates (\<lambda>r. (p_course_code r, required_course_code r)) ?rs2"
  have out: "out = df1\<lparr>rows := filter (\<lambda>r. p_course_code r \<in> valid \<and> required_course_code r \<in> valid) ?rs3\<rparr>"
    using assms d by (simp add: preprocess_prerequisites_def Let_def)
  show "columns out = columns df" by (simp add: out d1(2))
  show "set [''course_code'', ''required_course_code''] \<subseteq> set (columns df)" by (rule d1(1))
  show "distinct (map (\<lambda>r. (p_course_code r, required_course_code r)) (rows out))"
    by (simp add: out distinct_map_filter drop_duplicates_distinct)
  have "\<forall>r \<in> set ?rs3. canonical_prereq r"
    using drop_duplicates_subset [of "\<lambda>r. (p_course_code r, required_course_code r)" ?rs2]
    by (auto simp: canonical_prereq_upper)
  then show "\<forall>r \<in> set (rows out). canonical_prereq r"
    by (simp add: out)
  show "\<forall>r \<in> set (rows out). p_course_code r \<in> valid \<and> required_course_code r \<in> valid"
    by (simp add: out)
qed

lemma preprocess_prerequisites_idempotent:
  assumes "preprocess_prerequisites df valid = Inr out"
  shows "preprocess_prerequisites out valid = Inr out"
proof -
  note r = preprocess_prerequisites_rows [OF assms]
  have "dropna prereq_field [''course_code'', ''required_course_code''] out = Inr out"
    using r(1,2,4) by (intro dropna_id) (auto simp: canonical_prereq_def)
  moreover have "map upper_prereq (rows out) = rows out"
    using r(4) by (simp add: map_idI canonical_prereq_fixed)
  moreover have "drop_duplicates (\<lambda>r. (p_course_code r, required_course_code r)) (rows out) = rows out"
    using r(3) by (rule drop_duplicates_id)
  moreover have "filter (\<lambda>r. p_course_code r \<in> valid \<and> required_course_code r \<in> valid) (rows out) = rows out"
    using r(5) by (simp add: filter_id_conv)
  ultimately show ?thesis
    by (simp add: preprocess_prerequisites_def Let_def)
qed

lemma preprocess_data_Inr:
  assumes "preprocess_data raw = Inr out"
  shows "preprocess_courses (courses raw) = Inr (courses out)"
    and "preprocess_prerequisites (prerequisites raw) (set (map course_code (rows (courses out))))
           = Inr (prerequisites out)"
  using assms by (auto simp: preprocess_data_def Let_def split: sum.splits)

lemma preprocess_data_idempotent:
  assumes "preprocess_data raw = Inr out"
  shows "preprocess_data out = Inr out"
  using preprocess_courses_idempotent [OF preprocess_data_Inr(1) [OF assms]]
    preprocess_prerequisites_idempotent [OF preprocess_data_Inr(2) [OF assms]]
  by (simp add: preprocess_data_def)

lemma preprocess_courses_returns:
  assumes "set required \<subseteq> set (columns df)"
  shows "\<exists>out. preprocess_courses df = Inr out"
proof -
  have "filter (\<lambda>c. c \<notin> set (columns df)) required = []"
    using assms by (auto simp: filter_empty_conv)
  then show ?thesis by (simp add: preprocess_courses_def dropna_def Let_def)
qed

lemma preprocess_prerequisites_returns:
  assumes "set [''course_code'', ''required_course_code''] \<subseteq> set (columns df)"
  shows "\<exists>out. preprocess_prerequisites df valid = Inr out"
proof -
  have "filter (\<lambda>c. c \<notin> set (columns df)) [''course_code'', ''required_course_code''] = []"
    using assms by (auto simp: filter_empty_conv)
  then show ?thesis by (simp add: preprocess_prerequisites_def dropna_def Let_def)
qed

subsection \<open>Properties of the normalizer\<close>

lemma raw_tables_run: "preprocess_data raw_tables = Inr clean_tables"
  by code_simp

lemma raw_courses_run: "preprocess_courses raw_courses = Inr clean_courses"
  by code_simp

lemma raw_prereqs_run:
  "preprocess_prerequisites raw_prereqs (set (map course_code (rows clean_courses))) = Inr clean_prereqs"
  by code_simp

text \<open>
  Claim C6. Normalization is idempotent: whenever \<open>preprocess_courses\<close>,
  \<open>preprocess_prerequisites\<close> (with the same set of valid codes) or \<open>preprocess_data\<close>
  returns a table, running it again on that table returns the very same table, so no
  row is dropped and no field changes.
\<close>

theorem normalisation_idempotent:
  "(preprocess_courses df = Inr out \<longrightarrow> preprocess_courses out = Inr out)
   \<and> (preprocess_prerequisites pdf valid = Inr pout \<longrightarrow> preprocess_prerequisites pout valid = Inr pout)
   \<and> (preprocess_data raw = Inr cleaned \<longrightarrow> preprocess_data cleaned = Inr cleaned)"
  using preprocess_courses_idempotent preprocess_prerequisites_idempotent preprocess_data_idempotent
  by blast

theorem normalisation_idempotent_witness:
  "preprocess_courses raw_courses = Inr clean_courses
   \<and> preprocess_courses clean_courses = Inr clean_courses
   \<and> preprocess_prerequisites raw_prereqs (set (map course_code (rows clean_courses))) = Inr clean_prereqs
   \<and> preprocess_prerequisites clean_prereqs (set (map course_code (rows clean_courses))) = Inr clean_prereqs
   \<and> preprocess_data raw_tables = Inr clean_tables
   \<and> preprocess_data clean_tables = Inr clean_tables
   \<and> rows clean_courses \<noteq> rows raw_courses"
proof -
  have "rows clean_courses \<noteq> rows raw_courses"
    by (simp add: clean_courses_def raw_courses_def)
  with normalisation_idempotent [of raw_courses clean_courses raw_prereqs
      "set (map course_code (rows clean_courses))" clean_prereqs raw_tables clean_tables]
    raw_courses_run raw_prereqs_run raw_tables_run
  show ?thesis by simp
qed

text \<open>
  Claim C7. Referential closure: in the output of \<open>preprocess_data\<close> both endpoints of
  every prerequisite row are \<open>course_code\<close> values of the course table of the same output.
\<close>

theorem referential_closure:
  assumes "preprocess_data raw = Inr out"
  shows "\<forall>e \<in> set (rows (prerequisites out)).
           p_course_code e \<in> set (map course_code (rows (courses out)))
           \<and> required_course_code e \<in> set (map course_code (rows (courses out)))"
  using preprocess_prerequisites_rows(5) [OF preprocess_data_Inr(2) [OF assms]] .

theorem referential_closure_witness:
  "preprocess_data raw_tables = Inr clean_tables
   \<and> \<lparr>p_course_code = Str ''IE7275'', required_course_code = Str ''IE6400''\<rparr>
        \<in> set (rows (prerequisites clean_tables))
   \<and> Str ''IE7275'' \<in> set (map course_code (rows (courses clean_tables)))
   \<and> Str ''IE6400'' \<in> set (map course_code (rows (courses clean_tables)))"
proof -
  let ?e = "\<lparr>p_course_code = Str ''IE7275'', required_course_code = Str ''IE6400''\<rparr>"
  have e: "?e \<in> set (rows (prerequisites clean_tables))"
    by (simp add: clean_tables_def clean_prereqs_def)
  from bspec [OF referential_closure [OF raw_tables_run] e] e raw_tables_run
  show ?thesis by simp
qed

lemma shadowed_courses_run:
  "preprocess_courses shadowed_courses = Inr (shadowed_courses\<lparr>rows := []\<rparr>)"
  by code_simp

lemma later_row_alone:
  "preprocess_courses (shadowed_courses\<lparr>rows := [later_row]\<rparr>)
     = Inr (shadowed_courses\<lparr>rows := [later_row]\<rparr>)"
  by code_simp

text \<open>
  Claim C10. De-duplication runs before the program and type filters, so a valid row
  can be lost: there is a raw table of two rows with the same code, the first with an
  unknown program, the second kept unchanged when it is normalized alone, whose
  normalized output has no row with that code.
\<close>

theorem first_duplicate_shadows_valid_row:
  "\<exists>df first later out.
     rows df = [first, later]
     \<and> course_code first = course_code later
     \<and> \<not> isin (program_code first) VALID_PROGRAM_CODES
     \<and> preprocess_courses (df\<lparr>rows := [later]\<rparr>) = Inr (df\<lparr>rows := [later]\<rparr>)
     \<and> preprocess_courses df = Inr out
     \<and> course_code later \<notin> set (map course_code (rows out))"
proof -
  have "rows shadowed_courses = [first_row, later_row]"
    by (simp add: shadowed_courses_def)
  moreover have "course_code first_row = course_code later_row"
    by (simp add: first_row_def later_row_def)
  moreover have "\<not> isin (program_code first_row) VALID_PROGRAM_CODES"
    by (simp add: first_row_def VALID_PROGRAM_CODES_def)
  moreover have "course_code later_row \<notin> set (map course_code (rows (shadowed_courses\<lparr>rows := []\<rparr>)))"
    by simp
  ultimately show ?thesis
    using shadowed_courses_run later_row_alone by blast
qed

section \<open>Program coverage and its flags\<close>

lemma round_half_even_close: "\<bar>of_int (round_half_even q) - q\<bar> \<le> 1 / 2"
proof -
  have "of_int \<lfloor>q\<rfloor> \<le> q" "q < of_int \<lfloor>q\<rfloor> + 1" by linarith+
  then show ?thesis
    by (auto simp: round_half_even_def Let_def)
qed

lemma pow2_pos: "(0::rat) < 2 powi k"
  by (simp add: power_int_def)

lemma pow2_Suc: "(2::rat) powi (k + 1) = 2 * 2 powi k"
  by (simp add: power_int_add)

lemma pow2_mono: "k \<le> l \<Longrightarrow> (2::rat) powi k \<le> 2 powi l"
  by (rule power_int_increasing) simp_all

lemma float_exponent_bounds:
  assumes "q \<noteq> 0"
  shows "2 powi (float_exponent q) \<le> \<bar>q\<bar>" and "\<bar>q\<bar> < 2 powi (float_exponent q + 1)"
proof -
  obtain a b where ab: "quotient_of \<bar>q\<bar> = (a, b)" by (cases "quotient_of \<bar>q\<bar>")
  then have b: "0 < b" by (rule quotient_of_denom_pos)
  have q: "\<bar>q\<bar> = of_int a / of_int b" using ab by (rule quotient_of_div)
  have "0 < \<bar>q\<bar>" using assms by simp
  then have a: "0 < a" using b unfolding q by (simp add: zero_less_divide_iff)
  let ?la = "bitlen a" and ?lb = "bitlen b"
  let ?d = "?la - ?lb"
  have la: "1 \<le> ?la" and lb: "1 \<le> ?lb"
    using a b by (simp_all add: bitlen_alt_def)
  have int_bounds: "(2::rat) powi (bitlen x - 1) \<le> of_int x \<and> (of_int x :: rat) < 2 powi (bitlen x)"
    if "0 < x" for x :: int
  proof -
    from that have l: "1 \<le> bitlen x" by (simp add: bitlen_alt_def)
    from bitlen_bounds [OF that]
    have "(of_int (2 ^ nat (bitlen x - 1)) :: rat) \<le> of_int x"
      and "(of_int x :: rat) < of_int (2 ^ nat (bitlen x))"
      unfolding of_int_le_iff of_int_less_iff by simp_all
    then show ?thesis using l by (simp add: power_int_def)
  qed
  from int_bounds [OF a] have a1: "(2::rat) powi (?la - 1) \<le> of_int a"
    and a2: "(of_int a :: rat) < 2 powi ?la" by simp_all
  from int_bounds [OF b] have b1: "(2::rat) powi (?lb - 1) \<le> of_int b"
    and b2: "(of_int b :: rat) < 2 powi ?lb" by simp_all
  have bp: "(0::rat) < of_int b" using b by simp
  have "\<bar>q\<bar> * 2 powi (?lb - 1) \<le> \<bar>q\<bar> * of_int b"
    using b1 by (intro mult_left_mono) simp_all
  also have "\<dots> = of_int a" using bp by (simp add: q)
  also have "\<dots> < 2 powi ?la" by (rule a2)
  also have "\<dots> = 2 powi (?d + 1) * 2 powi (?lb - 1)"
    by (simp flip: power_int_add)
  finally have up: "\<bar>q\<bar> < 2 powi (?d + 1)"
    using pow2_pos [of "?lb - 1"] by simp
  have "2 powi (?d - 1) * 2 powi ?lb = (2::rat) powi (?la - 1)"
    by (simp flip: power_int_add)
  also have "\<dots> \<le> of_int a" by (rule a1)
  also have "\<dots> = \<bar>q\<bar> * of_int b" using bp by (simp add: q)
  also have "\<dots> \<le> \<bar>q\<bar> * 2 powi ?lb"
    using b2 by (intro mult_left_mono) simp_all
  finally have lo: "2 powi (?d - 1) \<le> \<bar>q\<bar>"
    using pow2_pos [of "?lb"] by simp
  have fe: "float_exponent q = (if 2 powi ?d \<le> \<bar>q\<bar> then ?d else ?d - 1)"
    by (simp add: float_exponent_def ab)
  show "2 powi (float_exponent q) \<le> \<bar>q\<bar>"
    using lo by (simp add: fe)
  show "\<bar>q\<bar> < 2 powi (float_exponent q + 1)"
    using up by (auto simp: fe not_le)
qed

lemma float_exponent_unique:
  assumes "2 powi e \<le> \<bar>q\<bar>" and "\<bar>q\<bar> < 2 powi (e + 1)"
  shows "float_exponent q = e"
proof -
  have q: "q \<noteq> 0" using assms(1) pow2_pos [of e] by linarith
  note b = float_exponent_bounds [OF q]
  have "float_exponent q < e + 1"
  proof (rule ccontr)
    assume "\<not> float_exponent q < e + 1"
    then have "(2::rat) powi (e + 1) \<le> 2 powi (float_exponent q)" by (intro pow2_mono) simp
    with b(1) assms(2) show False by simp
  qed
  moreover have "e < float_exponent q + 1"
  proof (rule ccontr)
    assume "\<not> e < float_exponent q + 1"
    then have "(2::rat) powi (float_exponent q + 1) \<le> 2 powi e" by (intro pow2_mono) simp
    with b(2) assms(1) show False by simp
  qed
  ultimately show ?thesis by simp
qed

lemma round_double_0: "round_double 0 = 0"
  by (simp add: round_double_def)

lemma round_double_error: "\<bar>round_double q - q\<bar> \<le> (\<bar>q\<bar> + 1) / 2 ^ 53"
proof (cases "q = 0")
  case True
  then show ?thesis by (simp add: round_double_0)
next
  case False
  define e where "e = max (float_exponent q) (- 1022)"
  define ulp :: rat where "ulp = 2 powi (e - 52)"
  have ulp: "0 < ulp" unfolding ulp_def by (rule pow2_pos)
  have rd: "round_double q = of_int (round_half_even (q / ulp)) * ulp"
    using False by (simp add: round_double_def Let_def e_def ulp_def)
  have "\<bar>of_int (round_half_even (q / ulp)) - q / ulp\<bar> \<le> 1 / 2"
    by (rule round_half_even_close)
  then have "\<bar>of_int (round_half_even (q / ulp)) - q / ulp\<bar> * ulp \<le> 1 / 2 * ulp"
    using ulp by (intro mult_right_mono) simp_all
  moreover have "\<bar>of_int (round_half_even (q / ulp)) - q / ulp\<bar> * ulp = \<bar>round_double q - q\<bar>"
  proof -
    have "\<bar>of_int (round_half_even (q / ulp)) - q / ulp\<bar> * ulp
            = \<bar>(of_int (round_half_even (q / ulp)) - q / ulp) * ulp\<bar>"
      using ulp by (simp add: abs_mult)
    also have "(of_int (round_half_even (q / ulp)) - q / ulp) * ulp = round_double q - q"
      using ulp by (simp add: rd field_simps)
    finally show ?thesis .
  qed
  ultimately have err: "\<bar>round_double q - q\<bar> \<le> ulp / 2" by simp
  have "ulp / 2 \<le> (\<bar>q\<bar> + 1) / 2 ^ 53"
  proof (cases "- 1022 \<le> float_exponent q")
    case True
    then have "e = float_exponent q" by (simp add: e_def)
    then have "ulp * 2 ^ 52 = 2 powi (float_exponent q)"
      unfolding ulp_def by (simp add: power_int_diff)
    then have "ulp * 2 ^ 52 \<le> \<bar>q\<bar>"
      using float_exponent_bounds(1) [OF False] by simp
    then show ?thesis by (simp add: field_simps)
  next
    case False
    then have "e = - 1022" by (simp add: e_def)
    then have "ulp = 2 powi (- 1074)" by (simp add: ulp_def)
    also have "\<dots> \<le> 2 powi (- 52)" by (rule pow2_mono) simp
    also have "\<dots> = 1 / 2 ^ 52" by (simp add: power_int_def field_simps)
    finally have "ulp \<le> 1 / 2 ^ 52" .
    then have "ulp / 2 \<le> 1 / 2 ^ 53" by simp
    also have "\<dots> \<le> (\<bar>q\<bar> + 1) / 2 ^ 53" by (simp add: divide_right_mono)
    finally show ?thesis .
  qed
  with err show ?thesis by simp
qed

lemma py_round2_0: "py_round2 0 = 0"
  by (simp add: py_round2_def round_half_even_def round_double_0)

lemma coverage_percentage_0: "coverage_percentage 0 t = 0"
  by (simp add: coverage_percentage_def py_round2_0 round_double_0)

lemma coverage_percentage_steps:
  assumes "t \<noteq> 0"
    and "of_nat c / of_nat t = q"
    and "round_double q = x1"
    and "round_double (x1 * 100) = x2"
    and "round_half_even (x2 * 100) = k"
    and "round_double (of_int k / 100) = pc"
  shows "coverage_percentage c t = pc"
  using assms by (simp add: coverage_percentage_def py_round2_def)

lemma coverage_percentage_close:
  assumes "t \<noteq> 0" and "c \<le> t"
  shows "\<bar>coverage_percentage c t - 100 * of_nat c / of_nat t\<bar> \<le> 1 / 200 + 1 / 10 ^ 13"
proof -
  define u :: rat where "u = 1 / 2 ^ 53"
  define q :: rat where "q = of_nat c / of_nat t"
  define x1 where "x1 = round_double q"
  define x2 where "x2 = round_double (x1 * 100)"
  define z :: rat where "z = of_int (round_half_even (x2 * 100)) / 100"
  have cp: "coverage_percentage c t = round_double z"
    using assms(1) by (simp add: coverage_percentage_def py_round2_def z_def x2_def x1_def q_def)
  have u: "0 < u" "u \<le> 1 / 1000" by (simp_all add: u_def)
  have q: "0 \<le> q" "q \<le> 1" using assms by (simp_all add: q_def)
  have e1: "\<bar>x1 - q\<bar> \<le> (\<bar>q\<bar> + 1) * u"
    unfolding x1_def u_def using round_double_error [of q] by simp
  have x1: "\<bar>x1 - q\<bar> \<le> 2 * u" "\<bar>x1\<bar> \<le> 1 + 2 * u"
  proof -
    have "(\<bar>q\<bar> + 1) * u \<le> 2 * u" using q u(1) by (intro mult_right_mono) simp_all
    with e1 show "\<bar>x1 - q\<bar> \<le> 2 * u" by simp
    with q show "\<bar>x1\<bar> \<le> 1 + 2 * u" by linarith
  qed
  have e2: "\<bar>x2 - x1 * 100\<bar> \<le> (\<bar>x1 * 100\<bar> + 1) * u"
    unfolding x2_def u_def using round_double_error [of "x1 * 100"] by simp
  have x2: "\<bar>x2 - x1 * 100\<bar> \<le> 102 * u"
  proof -
    have "\<bar>x1 * 100\<bar> + 1 \<le> 102" using x1(2) u(2) by (simp add: abs_mult)
    then have "(\<bar>x1 * 100\<bar> + 1) * u \<le> 102 * u" using u(1) by (intro mult_right_mono) simp_all
    with e2 show ?thesis by simp
  qed
  have x2q: "\<bar>x2 - 100 * q\<bar> \<le> 302 * u"
    using x2 x1(1) by linarith
  have "\<bar>of_int (round_half_even (x2 * 100)) - x2 * 100\<bar> \<le> 1 / 2"
    by (rule round_half_even_close)
  then have zx: "\<bar>z - x2\<bar> \<le> 1 / 200"
    unfolding z_def by (simp add: field_simps abs_le_iff)
  have zb: "\<bar>z\<bar> \<le> 102"
    using zx x2q q u(2) by linarith
  have e3: "\<bar>round_double z - z\<bar> \<le> (\<bar>z\<bar> + 1) * u"
    unfolding u_def using round_double_error [of z] by simp
  have "(\<bar>z\<bar> + 1) * u \<le> 103 * u" using zb u(1) by (intro mult_right_mono) simp_all
  with e3 have e3': "\<bar>round_double z - z\<bar> \<le> 103 * u" by simp
  have "\<bar>round_double z - 100 * q\<bar> \<le> 1 / 200 + 405 * u"
    using e3' zx x2q by linarith
  moreover have "405 * u \<le> 1 / 10 ^ 13" by (simp add: u_def)
  ultimately show ?thesis by (simp add: cp q_def)
qed

text \<open>The percentages of some tables, each operation evaluated on the double before it.\<close>

lemma coverage_percentage_1_1: "coverage_percentage (Suc 0) (Suc 0) = 100"
proof (rule coverage_percentage_steps)
  show "(Suc 0) \<noteq> (0::nat)" by simp
  show "(of_nat (Suc 0) / of_nat (Suc 0) :: rat) = 1" by simp
  show "round_double (1) = 1"
    by code_simp
  show "round_double (1 * 100) = 100"
    by code_simp
  show "round_half_even (100 * 100) = 10000"
    by code_simp
  show "round_double (of_int 10000 / 100) = 100"
    by code_simp
qed

lemma coverage_percentage_1_10: "coverage_percentage 1 10 = 10"
proof (rule coverage_percentage_steps)
  show "10 \<noteq> (0::nat)" by simp
  show "(of_nat 1 / of_nat 10 :: rat) = 1 / 10" by simp
  show "round_double (1 / 10) = 3602879701896397 / 36028797018963968"
    by code_simp
  show "round_double (3602879701896397 / 36028797018963968 * 100) = 10"
    by code_simp
  show "round_half_even (10 * 100) = 1000"
    by code_simp
  show "round_double (of_int 1000 / 100) = 10"
    by code_simp
qed

lemma coverage_percentage_9_10: "coverage_percentage 9 10 = 90"
proof (rule coverage_percentage_steps)
  show "10 \<noteq> (0::nat)" by simp
  show "(of_nat 9 / of_nat 10 :: rat) = 9 / 10" by simp
  show "round_double (9 / 10) = 8106479329266893 / 9007199254740992"
    by code_simp
  show "round_double (8106479329266893 / 9007199254740992 * 100) = 90"
    by code_simp
  show "round_half_even (90 * 100) = 9000"
    by code_simp
  show "round_double (of_int 9000 / 100) = 90"
    by code_simp
qed

lemma coverage_percentage_1_3: "coverage_percentage 1 3 = 2345390243441541 / 70368744177664"
proof (rule coverage_percentage_steps)
  show "3 \<noteq> (0::nat)" by simp
  show "(of_nat 1 / of_nat 3 :: rat) = 1 / 3" by simp
  show "round_double (1 / 3) = 6004799503160661 / 18014398509481984"
    by code_simp
  show "round_double (6004799503160661 / 18014398509481984 * 100) = 2345624805922133 / 70368744177664"
    by code_simp
  show "round_half_even (2345624805922133 / 70368744177664 * 100) = 3333"
    by code_simp
  show "round_double (of_int 3333 / 100) = 2345390243441541 / 70368744177664"
    by code_simp
qed

lemma coverage_percentage_23_160: "coverage_percentage 23 160 = 8089590830664253 / 562949953421312"
proof (rule coverage_percentage_steps)
  show "160 \<noteq> (0::nat)" by simp
  show "(of_nat 23 / of_nat 160 :: rat) = 23 / 160" by simp
  show "round_double (23 / 160) = 2589569785738035 / 18014398509481984"
    by code_simp
  show "round_double (2589569785738035 / 18014398509481984 * 100) = 8092405580431359 / 562949953421312"
    by code_simp
  show "round_half_even (8092405580431359 / 562949953421312 * 100) = 1437"
    by code_simp
  show "round_double (of_int 1437 / 100) = 8089590830664253 / 562949953421312"
    by code_simp
qed

lemma coverage_percentage_1999_20000: "coverage_percentage 1999 20000 = 5623870034678907 / 562949953421312"
proof (rule coverage_percentage_steps)
  show "20000 \<noteq> (0::nat)" by simp
  show "(of_nat 1999 / of_nat 20000 :: rat) = 1999 / 20000" by simp
  show "round_double (1999 / 20000) = 7202156524090897 / 72057594037927936"
    by code_simp
  show "round_double (7202156524090897 / 72057594037927936 * 100) = 5626684784446013 / 562949953421312"
    by code_simp
  show "round_half_even (5626684784446013 / 562949953421312 * 100) = 999"
    by code_simp
  show "round_double (of_int 999 / 100) = 5623870034678907 / 562949953421312"
    by code_simp
qed

lemma coverage_step_flags:
  "bias_flags (coverage_step col tot p rep) = bias_flags rep @ flags_for col tot p"
  by (simp add: coverage_step_def flags_for_def Let_def)

lemma coverage_step_coverage:
  "program_coverage (coverage_step col tot p rep) =
     program_coverage rep @ [(p, program_count col p, coverage_percentage (program_count col p) tot)]"
  by (simp add: coverage_step_def Let_def)

lemma coverage_loop_flags:
  "bias_flags (coverage_loop col tot ps rep) = bias_flags rep @ concat (map (flags_for col tot) ps)"
  by (induction ps arbitrary: rep) (simp_all add: coverage_step_flags)

lemma coverage_loop_coverage:
  "program_coverage (coverage_loop col tot ps rep) =
     program_coverage rep @
       map (\<lambda>p. (p, program_count col p, coverage_percentage (program_count col p) tot)) ps"
  by (induction ps arbitrary: rep) (simp_all add: coverage_step_coverage)

lemma section_flags:
  assumes "program_coverage_section course_df = Inr rep"
  shows "bias_flags rep =
     concat (map (flags_for (map program_code (rows course_df)) (length (rows course_df))) expected_programs)"
  using assms
  by (auto simp: program_coverage_section_def course_column_def coverage_loop_flags split: if_splits)

lemma section_coverage:
  assumes "program_coverage_section course_df = Inr rep"
  shows "program_coverage rep =
     map (\<lambda>p. (p, program_count (map program_code (rows course_df)) p,
               coverage_percentage (program_count (map program_code (rows course_df)) p)
                 (length (rows course_df)))) expected_programs"
  using assms
  by (auto simp: program_coverage_section_def course_column_def coverage_loop_coverage split: if_splits)

lemma MISSING_in_flags_for:
  "MISSING_PROGRAM p \<in> set (flags_for col t q) \<longleftrightarrow> p = q \<and> program_count col q = 0"
  by (auto simp: flags_for_def)

lemma LOW_in_flags_for:
  "LOW_COVERAGE p pc c \<in> set (flags_for col t q) \<longleftrightarrow>
     p = q \<and> c = program_count col q \<and> pc = coverage_percentage c t \<and> pc < 10"
  by (auto simp: flags_for_def)

lemma one_course_run: "program_coverage_section one_course = Inr one_course_report"
proof -
  define col where "col = map program_code (rows one_course)"
  have n: "length (rows one_course) = Suc 0"
    by (simp add: one_course_def)
  have k: "''program_code'' \<in> set (columns one_course)"
    by (simp add: one_course_def all_columns_def)
  have c: "program_count col ''MS_DAE'' = 0" "program_count col ''MS_DS'' = Suc 0"
    "program_count col ''MS_CS'' = 0" "program_count col ''MS_DA'' = 0"
    "program_count col ''MS_IS'' = 0"
    by (simp_all add: col_def program_count_def one_course_def mk_course_def)
  have "program_coverage_section one_course =
          Inr (coverage_loop col (Suc 0) expected_programs \<lparr>program_coverage = [], bias_flags = []\<rparr>)"
    using k by (simp add: program_coverage_section_def course_column_def col_def n)
  also have "coverage_loop col (Suc 0) expected_programs \<lparr>program_coverage = [], bias_flags = []\<rparr>
               = one_course_report"
    by (simp add: expected_programs_def coverage_step_def Let_def c coverage_percentage_0
        coverage_percentage_1_1 one_course_report_def)
  finally show ?thesis .
qed

lemma ten_courses_run: "program_coverage_section ten_courses = Inr ten_courses_report"
proof -
  define col where "col = map program_code (rows ten_courses)"
  have n: "length (rows ten_courses) = 10"
    by (simp add: ten_courses_def)
  have k: "''program_code'' \<in> set (columns ten_courses)"
    by (simp add: ten_courses_def all_columns_def)
  have c: "program_count col ''MS_DAE'' = 0" "program_count col ''MS_DS'' = 9"
    "program_count col ''MS_CS'' = 1" "program_count col ''MS_DA'' = 0"
    "program_count col ''MS_IS'' = 0"
    by (simp_all add: col_def program_count_def ten_courses_def mk_course_def)
  have "program_coverage_section ten_courses =
          Inr (coverage_loop col 10 expected_programs \<lparr>program_coverage = [], bias_flags = []\<rparr>)"
    using k by (simp add: program_coverage_section_def course_column_def col_def n)
  also have "coverage_loop col 10 expected_programs \<lparr>program_coverage = [], bias_flags = []\<rparr>
               = ten_courses_report"
    by (simp add: expected_programs_def coverage_step_def Let_def c coverage_percentage_0
        coverage_percentage_1_10 [simplified] coverage_percentage_9_10 ten_courses_report_def)
  finally show ?thesis .
qed

text \<open>
  The flag follows the float, not the exact quotient: 1999 courses of 20000 are 9.995
  percent, the float product rounds to 9.99, and LOW COVERAGE is emitted.
\<close>

lemma low_coverage_1999_of_20000:
  assumes "program_coverage_section course_df = Inr rep" and "p \<in> set expected_programs"
    and "length (rows course_df) = 20000"
    and "program_count (map program_code (rows course_df)) p = 1999"
  shows "LOW_COVERAGE p (5623870034678907 / 562949953421312) 1999 \<in> set (bias_flags rep)"
  using assms
  by (auto simp: section_flags [OF assms(1)] LOW_in_flags_for coverage_percentage_1999_20000)

lemma section_MISSING_iff:
  assumes "program_coverage_section course_df = Inr rep"
  shows "MISSING_PROGRAM p \<in> set (bias_flags rep) \<longleftrightarrow>
           p \<in> set expected_programs \<and> program_count (map program_code (rows course_df)) p = 0"
  by (auto simp: section_flags [OF assms] MISSING_in_flags_for)

lemma section_LOW_iff:
  assumes "program_coverage_section course_df = Inr rep"
  shows "LOW_COVERAGE p pc c \<in> set (bias_flags rep) \<longleftrightarrow>
           p \<in> set expected_programs \<and> c = program_count (map program_code (rows course_df)) p
           \<and> pc = coverage_percentage c (length (rows course_df)) \<and> pc < 10"
  by (auto simp: section_flags [OF assms] LOW_in_flags_for)

text \<open>
  Claim C2, as the code has it. The loop body tests \<open>percentage < 10.0\<close> with no
  condition on the count, and tests \<open>count == 0\<close> separately. So for a program of the
  enumerated set: MISSING PROGRAM is emitted exactly when its count is 0, LOW COVERAGE
  is emitted exactly when its rounded percentage is below 10, and every program that
  gets MISSING PROGRAM gets LOW COVERAGE (at 0 percent, 0 courses) in the same run.
\<close>

theorem coverage_flags_characterised:
  assumes "program_coverage_section course_df = Inr rep"
  shows "(MISSING_PROGRAM p \<in> set (bias_flags rep) \<longleftrightarrow>
            p \<in> set expected_programs \<and> program_count (map program_code (rows course_df)) p = 0)
       \<and> (LOW_COVERAGE p pc c \<in> set (bias_flags rep) \<longleftrightarrow>
            p \<in> set expected_programs \<and> c = program_count (map program_code (rows course_df)) p
            \<and> pc = coverage_percentage c (length (rows course_df)) \<and> pc < 10)
       \<and> (MISSING_PROGRAM p \<in> set (bias_flags rep) \<longrightarrow> LOW_COVERAGE p 0 0 \<in> set (bias_flags rep))"
proof -
  note m = section_MISSING_iff [OF assms] and l = section_LOW_iff [OF assms]
  have "LOW_COVERAGE p 0 0 \<in> set (bias_flags rep)" if "MISSING_PROGRAM p \<in> set (bias_flags rep)"
    using that unfolding m l by (simp add: coverage_percentage_0)
  with m [of p] l [of p pc c] show ?thesis by blast
qed

theorem coverage_flags_characterised_witness:
  "program_coverage_section one_course = Inr one_course_report
   \<and> MISSING_PROGRAM ''MS_CS'' \<in> set (bias_flags one_course_report)
   \<and> program_count (map program_code (rows one_course)) ''MS_CS'' = 0
   \<and> LOW_COVERAGE ''MS_CS'' 0 0 \<in> set (bias_flags one_course_report)
   \<and> coverage_percentage 0 (length (rows one_course)) < 10"
proof -
  have m: "MISSING_PROGRAM ''MS_CS'' \<in> set (bias_flags one_course_report)"
    by (simp add: one_course_report_def)
  from coverage_flags_characterised [OF one_course_run, of "''MS_CS''" 0 0] m one_course_run
  show ?thesis by (simp add: coverage_percentage_0)
qed

text \<open>
  Claim C2 as stated fails: with a single MS\_DS course in the table, the program MS\_CS
  has no course, its percentage is 0, and the run emits both flags for it.
\<close>

theorem low_and_missing_for_same_program:
  "\<not> isl (program_coverage_section one_course)
   \<and> LOW_COVERAGE ''MS_CS'' 0 0 \<in> set (bias_flags (projr (program_coverage_section one_course)))
   \<and> MISSING_PROGRAM ''MS_CS'' \<in> set (bias_flags (projr (program_coverage_section one_course)))"
  by (simp add: one_course_run one_course_report_def)

text \<open>
  Claim C8, as the code has it. The percentage is \<open>round((count / total) * 100, 2)\<close> in
  binary floating point: it is 0 when the table is empty, and otherwise, the count
  being at most the total, it lies within 0.005 of \<open>100 * count / total\<close> up to the
  rounding errors of the three float operations (less than \<open>1 / 10 ^ 13\<close>). It is not
  always the two-decimal rounding of the exact quotient: 23 courses of 160 are 14.375
  percent and the code gives the double of 14.37. At the boundary, a program with
  exactly one of ten courses has percentage exactly 10 and gets no LOW COVERAGE flag.
\<close>

theorem coverage_percentage_rounded:
  "coverage_percentage c 0 = 0
   \<and> (t \<noteq> 0 \<and> c \<le> t \<longrightarrow>
        \<bar>coverage_percentage c t - 100 * of_nat c / of_nat t\<bar> \<le> 1 / 200 + 1 / 10 ^ 13)
   \<and> coverage_percentage 23 160 = round_double (1437 / 100)
   \<and> coverage_percentage 1 10 = 10
   \<and> (program_coverage_section course_df = Inr rep \<and> p \<in> set expected_programs
        \<and> length (rows course_df) = 10 \<and> program_count (map program_code (rows course_df)) p = 1
      \<longrightarrow> (p, 1, 10) \<in> set (program_coverage rep)
          \<and> LOW_COVERAGE p pc n \<notin> set (bias_flags rep))"
proof -
  have z: "coverage_percentage c 0 = 0"
    by (simp add: coverage_percentage_def)
  note b = coverage_percentage_1_10
  have d: "coverage_percentage 23 160 = round_double (1437 / 100)"
  proof -
    have "round_double (1437 / 100) = 8089590830664253 / 562949953421312"
      by code_simp
    then show ?thesis by (simp add: coverage_percentage_23_160)
  qed
  have s: "(p, 1, 10) \<in> set (program_coverage rep) \<and> LOW_COVERAGE p pc n \<notin> set (bias_flags rep)"
    if h: "program_coverage_section course_df = Inr rep" and p: "p \<in> set expected_programs"
      and t: "length (rows course_df) = 10"
      and c1: "program_count (map program_code (rows course_df)) p = 1"
  proof -
    have "(p, 1, 10) \<in> set (program_coverage rep)"
      unfolding section_coverage [OF h] using p c1 t b by force
    moreover have "LOW_COVERAGE p pc n \<notin> set (bias_flags rep)"
      using section_LOW_iff [OF h, of p pc n] c1 t b by auto
    ultimately show ?thesis by simp
  qed
  from z b d s coverage_percentage_close [of t c] show ?thesis by blast
qed

theorem coverage_percentage_rounded_witness:
  "(3::nat) \<noteq> 0 \<and> (1::nat) \<le> 3
   \<and> \<bar>coverage_percentage 1 3 - 100 * of_nat 1 / of_nat 3\<bar> \<le> 1 / 200 + 1 / 10 ^ 13
   \<and> program_coverage_section ten_courses = Inr ten_courses_report
   \<and> ''MS_CS'' \<in> set expected_programs
   \<and> length (rows ten_courses) = 10
   \<and> program_count (map program_code (rows ten_courses)) ''MS_CS'' = 1
   \<and> (''MS_CS'', 1, 10) \<in> set (program_coverage ten_courses_report)
   \<and> LOW_COVERAGE ''MS_CS'' 10 1 \<notin> set (bias_flags ten_courses_report)"
proof -
  have p: "''MS_CS'' \<in> set expected_programs"
    by (simp add: expected_programs_def)
  have l: "length (rows ten_courses) = 10"
    by (simp add: ten_courses_def)
  have c: "program_count (map program_code (rows ten_courses)) ''MS_CS'' = 1"
    by (simp add: ten_courses_def program_count_def mk_course_def)
  from coverage_percentage_rounded [of 1 3 ten_courses ten_courses_report "''MS_CS''" 10 1]
    p l c ten_courses_run
  show ?thesis by simp
qed

text \<open>
  Claim C8 as stated fails: one course of three gives the double of 33.33, not 100/3.
\<close>

theorem coverage_percentage_one_of_three:
  "coverage_percentage 1 3 \<noteq> 100 * of_nat 1 / of_nat 3"
  using coverage_percentage_1_3 by simp

section \<open>Schema validator\<close>

lemma validate_courses_Inr:
  assumes "validate_courses df = Inr vs"
  shows "course_column df ''course_code'' = Inr (map course_code (rows df))"
proof (cases "course_column df ''course_code''")
  case (Inl e)
  with assms show ?thesis by (simp add: validate_courses_def Let_def)
next
  case (Inr codes)
  then show ?thesis by (auto simp: course_column_def split: if_splits)
qed

lemma validate_prerequisites_returns: "\<exists>vs. validate_prerequisites df valid = Inr vs"
  by (simp add: validate_prerequisites_def Let_def)

lemma any_le_zero_returns:
  "list_all (\<lambda>c. \<forall>s. c \<noteq> Str s) col \<Longrightarrow> \<exists>b. any_le_zero col = Inr b"
proof (induction col)
  case Nil
  show ?case by (simp del: ex_simps) blast
next
  case (Cons c cs)
  then obtain b where "any_le_zero cs = Inr b" by auto
  with Cons.prems show ?case by (cases c) auto
qed

lemma validate_courses_returns:
  assumes "set required \<subseteq> set (columns df)"
    and "list_all (\<lambda>r. \<forall>s. credits r \<noteq> Str s) (rows df)"
  shows "\<exists>vs. validate_courses df = Inr vs"
proof -
  have "list_all (\<lambda>c. \<forall>s. c \<noteq> Str s) (map credits (rows df))"
    using assms(2) by (simp add: list_all_iff)
  then obtain b where "any_le_zero (map credits (rows df)) = Inr b"
    using any_le_zero_returns by blast
  then show ?thesis
    using assms(1) by (simp add: validate_courses_def course_column_def required_def Let_def)
qed

lemma validate_prerequisites_missing_column:
  "validate_prerequisites no_code_prereqs valid = Inr [required_columns [''course_code'']]"
  by (simp add: validate_prerequisites_def no_code_prereqs_def)

text \<open>
  Claim C3 fails on the code. Given a course table that lacks the column
  \<open>course_code\<close>, \<open>validate_courses\<close> records the missing column and then reads
  \<open>df["course_code"]\<close> all the same: the call ends in \<open>KeyError\<close> and no list of
  violations is returned. \<open>validate_prerequisites\<close> guards the same situation with an
  early return.
\<close>

theorem validate_courses_missing_column:
  "validate_courses no_code_courses = Inl (KeyError [''course_code''])"
  by code_simp

text \<open>
  Claim C4, as the code has it. \<open>validate_data\<close> has no result value for a failed
  validation: when the two component lists together hold a violation it raises
  \<open>ValueError\<close> with their number, otherwise it returns what \<open>generate_statistics\<close>
  returns; and whenever it returns a report, both component lists were empty.
\<close>

theorem validate_data_raises:
  "(validate_courses (courses cleaned) = Inr cv
      \<and> validate_prerequisites (prerequisites cleaned)
            (set (map course_code (rows (courses cleaned)))) = Inr pv
    \<longrightarrow> validate_data cleaned =
          (if cv @ pv \<noteq> [] then Inl (ValueError (length (cv @ pv)))
           else generate_statistics cleaned))
   \<and> (validate_data cleaned = Inr stats
    \<longrightarrow> validate_courses (courses cleaned) = Inr []
        \<and> validate_prerequisites (prerequisites cleaned)
              (set (map course_code (rows (courses cleaned)))) = Inr []
        \<and> generate_statistics cleaned = Inr stats)"
proof -
  let ?valid = "set (map course_code (rows (courses cleaned)))"
  have a: "validate_data cleaned =
          (if cv @ pv \<noteq> [] then Inl (ValueError (length (cv @ pv))) else generate_statistics cleaned)"
    if c: "validate_courses (courses cleaned) = Inr cv"
      and p: "validate_prerequisites (prerequisites cleaned) ?valid = Inr pv"
    using c p validate_courses_Inr [OF c] by (simp add: validate_data_def Let_def)
  have b: "validate_courses (courses cleaned) = Inr []
        \<and> validate_prerequisites (prerequisites cleaned) ?valid = Inr []
        \<and> generate_statistics cleaned = Inr stats"
    if s: "validate_data cleaned = Inr stats"
  proof -
    from s obtain codes where k: "course_column (courses cleaned) ''course_code'' = Inr codes"
      by (auto simp: validate_data_def split: sum.splits)
    then have codes: "codes = map course_code (rows (courses cleaned))"
      by (auto simp: course_column_def split: if_splits)
    from s k obtain cv' where c: "validate_courses (courses cleaned) = Inr cv'"
      by (auto simp: validate_data_def Let_def split: sum.splits)
    from s k c obtain pv' where
      p: "validate_prerequisites (prerequisites cleaned) (set codes) = Inr pv'"
      by (auto simp: validate_data_def Let_def split: sum.splits)
    from s k c p show ?thesis
      unfolding codes by (auto simp: validate_data_def Let_def split: if_splits)
  qed
  from a b show ?thesis by blast
qed

lemma zero_credit_tables_cleaned: "preprocess_data zero_credit_tables = Inr zero_credit_tables"
  by code_simp

lemma zero_credit_tables_courses:
  "validate_courses (courses zero_credit_tables) = Inr [positive_credits]"
  by code_simp

lemma zero_credit_tables_prerequisites:
  "validate_prerequisites (prerequisites zero_credit_tables)
     (set (map course_code (rows (courses zero_credit_tables)))) = Inr []"
  by code_simp

lemma clean_tables_courses: "validate_courses (courses clean_tables) = Inr []"
  by code_simp

lemma clean_tables_prerequisites:
  "validate_prerequisites (prerequisites clean_tables)
     (set (map course_code (rows (courses clean_tables)))) = Inr []"
  by code_simp

lemma clean_tables_statistics: "generate_statistics clean_tables = Inr clean_statistics"
  by (simp add: generate_statistics_def clean_tables_def clean_courses_def clean_prereqs_def
      clean_statistics_def course_column_def prereq_column_def all_columns_def mean_def
      value_counts_def nunique_def unique_def drop_duplicates_def)

theorem validate_data_raises_witness:
  "validate_courses (courses zero_credit_tables) = Inr [positive_credits]
   \<and> validate_prerequisites (prerequisites zero_credit_tables)
        (set (map course_code (rows (courses zero_credit_tables)))) = Inr []
   \<and> validate_data zero_credit_tables = Inl (ValueError 1)
   \<and> validate_data clean_tables = Inr clean_statistics
   \<and> validate_courses (courses clean_tables) = Inr []
   \<and> generate_statistics clean_tables = Inr clean_statistics"
  using validate_data_raises [of zero_credit_tables "[positive_credits]" "[]" clean_statistics]
    validate_data_raises [of clean_tables "[]" "[]" clean_statistics]
    zero_credit_tables_courses zero_credit_tables_prerequisites
    clean_tables_courses clean_tables_prerequisites clean_tables_statistics
  by simp

text \<open>
  Claim C4 as stated fails on a cleaned input: the tables below are what the normalizer
  returns (it returns them unchanged), they hold a course with 0 credits, and the call
  ends in \<open>ValueError\<close>, not in a result value.
\<close>

theorem validate_data_zero_credits:
  "preprocess_data zero_credit_tables = Inr zero_credit_tables
   \<and> validate_data zero_credit_tables = Inl (ValueError 1)"
proof -
  have "validate_data zero_credit_tables = Inl (ValueError 1)"
    by code_simp
  with zero_credit_tables_cleaned show ?thesis by simp
qed

section \<open>Circular prerequisites\<close>

lemma chain_step_iff:
  "(pc, r) \<in> chain_step es \<longleftrightarrow>
     \<not> is_cycle pc \<and> (\<exists>b. (pc_required_course_code pc, b) \<in> set es \<and>
        r = \<lparr>pc_course_code = pc_required_course_code pc, pc_required_course_code = b,
             visited = visited pc @ [pc_required_course_code pc],
             is_cycle = (pc_required_course_code pc \<in> set (visited pc))\<rparr>)"
  unfolding chain_step_def set_recursive_rows by simp blast

lemma set_recursive_rows_Image:
  "set (recursive_rows es w) = chain_step es `` set w"
  unfolding chain_step_def set_recursive_rows by auto

lemma rtrancl_Image_unfold: "R\<^sup>* `` A = A \<union> R\<^sup>* `` (R `` A)"
proof -
  have "R\<^sup>* = Id \<union> R O R\<^sup>*"
    by (metis rtrancl_trancl_reflcl trancl_unfold_left Un_commute)
  then have "R\<^sup>* `` A = (Id \<union> R O R\<^sup>*) `` A" by simp
  also have "\<dots> = A \<union> R\<^sup>* `` (R `` A)" by (auto simp: relcomp_Image)
  finally show ?thesis .
qed

lemma set_union_all: "set (union_all es w) = (chain_step es)\<^sup>* `` set w"
proof (induction es w rule: union_all.induct)
  case (1 es w)
  show ?case
  proof (cases "w = []")
    case True
    then show ?thesis by (simp add: union_all.simps)
  next
    case False
    have "set (union_all es w) = set w \<union> set (union_all es (recursive_rows es w))"
      using False by (subst union_all.simps) simp
    also have "\<dots> = set w \<union> (chain_step es)\<^sup>* `` (chain_step es `` set w)"
      using 1 [OF False] by (simp add: set_recursive_rows_Image)
    also have "\<dots> = (chain_step es)\<^sup>* `` set w"
      by (rule rtrancl_Image_unfold [symmetric])
    finally show ?thesis .
  qed
qed

lemma set_prereq_chain: "set (prereq_chain es) = chain_rows es"
  by (simp add: prereq_chain_def chain_rows_def set_union_all)

lemma set_detect:
  "set (detect_circular_prerequisites es) =
     {(pc_course_code r, pc_required_course_code r) | r. r \<in> chain_rows es \<and> is_cycle r}"
  by (auto simp: detect_circular_prerequisites_def set_prereq_chain)

lemma anchor_in_chain_rows:
  "(a, b) \<in> set es \<Longrightarrow>
     \<lparr>pc_course_code = a, pc_required_course_code = b, visited = [a], is_cycle = False\<rparr> \<in> chain_rows es"
  unfolding chain_rows_def anchor_rows_def by force

lemma chain_rows_step: "pc \<in> chain_rows es \<Longrightarrow> (pc, r) \<in> chain_step es \<Longrightarrow> r \<in> chain_rows es"
  unfolding chain_rows_def by (meson Image_iff rtrancl.rtrancl_into_rtrancl)

lemma chain_rows_induct [consumes 1, case_names anchor step]:
  assumes "r \<in> chain_rows es"
    and "\<And>p. p \<in> set es \<Longrightarrow>
           P \<lparr>pc_course_code = fst p, pc_required_course_code = snd p, visited = [fst p], is_cycle = False\<rparr>"
    and "\<And>pc r. pc \<in> chain_rows es \<Longrightarrow> P pc \<Longrightarrow> (pc, r) \<in> chain_step es \<Longrightarrow> P r"
  shows "P r"
proof -
  from assms(1) obtain r0 where r0: "r0 \<in> set (anchor_rows es)" and st: "(r0, r) \<in> (chain_step es)\<^sup>*"
    unfolding chain_rows_def by blast
  from st show ?thesis
  proof (induction rule: rtrancl_induct)
    case base
    from r0 show ?case by (auto simp: anchor_rows_def intro: assms(2))
  next
    case (step y z)
    have "y \<in> chain_rows es" using r0 step(1) unfolding chain_rows_def by blast
    with step show ?case by (blast intro: assms(3))
  qed
qed

subsection \<open>Every flagged row starts on a cycle\<close>

lemma chain_rows_invariant:
  assumes "r \<in> chain_rows es"
  shows "(pc_course_code r, pc_required_course_code r) \<in> set es
       \<and> (\<forall>v \<in> set (visited r). (v, pc_course_code r) \<in> (set es)\<^sup>*)
       \<and> (is_cycle r \<longrightarrow> (pc_course_code r, pc_course_code r) \<in> (set es)\<^sup>+)"
  using assms
proof (induct rule: chain_rows_induct)
  case (anchor p)
  then show ?case by simp
next
  case (step pc r)
  let ?c = "pc_required_course_code pc"
  from step(3) obtain b where e: "(?c, b) \<in> set es"
    and r: "r = \<lparr>pc_course_code = ?c, pc_required_course_code = b,
             visited = visited pc @ [?c], is_cycle = (?c \<in> set (visited pc))\<rparr>"
    unfolding chain_step_iff by blast
  from step(2) have e': "(pc_course_code pc, ?c) \<in> set es"
    and v: "\<forall>v \<in> set (visited pc). (v, pc_course_code pc) \<in> (set es)\<^sup>*"
    by simp_all
  have "(v, ?c) \<in> (set es)\<^sup>*" if "v \<in> set (visited pc)" for v
    using v that e' by (meson rtrancl.rtrancl_into_rtrancl)
  moreover have "(?c, ?c) \<in> (set es)\<^sup>+" if "?c \<in> set (visited pc)"
    using v that e' by (meson rtrancl_into_trancl1)
  ultimately show ?case using e by (auto simp: r)
qed

lemma detect_sound:
  assumes "(a, b) \<in> set (detect_circular_prerequisites es)"
  shows "(a, b) \<in> set es \<and> (a, a) \<in> (set es)\<^sup>+"
  using assms chain_rows_invariant unfolding set_detect by blast

subsection \<open>Every edge leaving a cycle is flagged\<close>

lemma rtrancl_path_last: "rtrancl_path r x xs y \<Longrightarrow> last (x # xs) = y"
  by (induction rule: rtrancl_path.induct) auto

lemma chain_follows_path:
  assumes "rtrancl_path (\<lambda>u v. (u, v) \<in> set es) x xs a"
    and "distinct (x # xs)"
    and "pc \<in> chain_rows es" and "\<not> is_cycle pc" and "pc_required_course_code pc = x"
    and "set (butlast (x # xs)) \<inter> set (visited pc) = {}"
    and "a \<in> set (visited pc)" and "(a, b) \<in> set es"
  shows "\<exists>r \<in> chain_rows es. pc_course_code r = a \<and> pc_required_course_code r = b \<and> is_cycle r"
  using assms
proof (induction arbitrary: pc rule: rtrancl_path.induct)
  case (base x)
  let ?r = "\<lparr>pc_course_code = x, pc_required_course_code = b,
             visited = visited pc @ [x], is_cycle = (x \<in> set (visited pc))\<rparr>"
  have "(pc, ?r) \<in> chain_step es"
    unfolding chain_step_iff using base by auto
  with base(2) have "?r \<in> chain_rows es" by (rule chain_rows_step)
  with base(6) show ?case by force
next
  case (step x y ys z)
  let ?pc = "\<lparr>pc_course_code = x, pc_required_course_code = y,
             visited = visited pc @ [x], is_cycle = (x \<in> set (visited pc))\<rparr>"
  have x: "x \<notin> set (visited pc)" using step.prems(5) by auto
  have "(pc, ?pc) \<in> chain_step es"
    unfolding chain_step_iff using step.hyps(1) step.prems(3,4) by auto
  with step.prems(2) have 1: "?pc \<in> chain_rows es" by (rule chain_rows_step)
  have 2: "\<not> is_cycle ?pc" using x by simp
  have "set (butlast (y # ys)) \<subseteq> set (y # ys)" by (auto dest: in_set_butlastD)
  then have 3: "set (butlast (y # ys)) \<inter> set (visited ?pc) = {}"
    using step.prems(1,5) by auto
  show ?case
    using step.IH [OF _ 1 2 _ 3] step.prems(1,6,7) by simp
qed

lemma detect_leaving_cycle:
  assumes "(a, c) \<in> set es" and "(c, a) \<in> (set es)\<^sup>*" and "(a, b) \<in> set es"
  shows "(a, b) \<in> set (detect_circular_prerequisites es)"
proof -
  let ?E = "\<lambda>u v. (u, v) \<in> set es"
  from assms(2) have "?E\<^sup>*\<^sup>* c a" by (simp add: rtranclp_rtrancl_eq [symmetric] rtrancl_def)
  then obtain xs0 where "rtrancl_path ?E c xs0 a"
    unfolding rtranclp_eq_rtrancl_path ..
  then obtain xs where p: "rtrancl_path ?E c xs a" and d: "distinct (c # xs)"
    by (rule rtrancl_path_distinct)
  let ?pc = "\<lparr>pc_course_code = a, pc_required_course_code = c, visited = [a], is_cycle = False\<rparr>"
  have l: "last (c # xs) = a" using p by (rule rtrancl_path_last)
  have "a \<notin> set (butlast (c # xs))"
    using d l by (metis append_butlast_last_id distinct_append disjoint_iff list.distinct(1) list.set_intros(1))
  then have "set (butlast (c # xs)) \<inter> set (visited ?pc) = {}" by simp
  from chain_follows_path [OF p d anchor_in_chain_rows [OF assms(1)] _ _ this _ assms(3)]
  obtain r where "r \<in> chain_rows es" "pc_course_code r = a" "pc_required_course_code r = b" "is_cycle r"
    by auto
  then show ?thesis unfolding set_detect by blast
qed

lemma detect_acyclic:
  assumes "acyclic (set es)"
  shows "detect_circular_prerequisites es = []"
proof (rule ccontr)
  assume "detect_circular_prerequisites es \<noteq> []"
  then obtain a b where "(a, b) \<in> set (detect_circular_prerequisites es)"
    by (cases "detect_circular_prerequisites es") auto
  from detect_sound [OF this] assms show False by (auto simp: acyclic_def)
qed

lemma distinct_detect: "distinct (detect_circular_prerequisites es)"
  by (simp add: detect_circular_prerequisites_def)

lemma not_reachable:
  assumes "R `` X \<subseteq> X" and "x \<in> X" and "y \<notin> X"
  shows "(x, y) \<notin> R\<^sup>*"
proof
  assume "(x, y) \<in> R\<^sup>*"
  with assms(2) have "y \<in> R\<^sup>* `` X" by blast
  with assms(3) Image_closed_trancl [OF assms(1)] show False by simp
qed

text \<open>
  What the query reports. The recursive term flags the row it adds when the source of
  the prerequisite it has just followed is already on the path, so the rows flagged
  are the prerequisites whose \<open>course_code\<close> lies on a directed cycle: all of them,
  whether or not the prerequisite itself lies on a cycle, and nothing else.
\<close>

lemma reported_edges_start_on_cycle:
  "set (detect_circular_prerequisites es) = {(a, b). (a, b) \<in> set es \<and> (a, a) \<in> (set es)\<^sup>+}"
proof -
  have "(a, b) \<in> set (detect_circular_prerequisites es)"
    if e: "(a, b) \<in> set es" and c: "(a, a) \<in> (set es)\<^sup>+" for a b
  proof -
    from c obtain c' where "(a, c') \<in> set es" "(c', a) \<in> (set es)\<^sup>*"
      by (blast dest: tranclD)
    then show ?thesis using e by (rule detect_leaving_cycle)
  qed
  then show ?thesis using detect_sound by blast
qed

text \<open>
  Claim C1 fails on the code. With \<open>A \<rightarrow> B\<close>, \<open>B \<rightarrow> A\<close> and \<open>A \<rightarrow> D\<close> the row for
  \<open>(A, D)\<close> is flagged \<open>is_cycle\<close> and returned among the circular prerequisites,
  although it lies on no cycle, as nothing is required by \<open>D\<close>: the flag is computed
  from the source of the prerequisite, not from the prerequisite.
\<close>

theorem exit_edge_reported:
  "(''A'', ''D'') \<in> set (detect_circular_prerequisites cycle_with_exit)
   \<and> \<not> on_cycle cycle_with_exit (''A'', ''D'')"
proof -
  have "detect_circular_prerequisites cycle_with_exit = [(''A'', ''B''), (''A'', ''D''), (''B'', ''A'')]"
    by code_simp
  moreover have "(''D'', ''A'') \<notin> (set cycle_with_exit)\<^sup>*"
    by (rule not_reachable [where X = "{''D''}"]) (auto simp: cycle_with_exit_def)
  ultimately show ?thesis by (simp add: on_cycle_def)
qed

text \<open>
  Claim C5. Cycle detection is complete: every prerequisite that lies on a directed
  cycle is reported, nothing is reported for an acyclic graph, and for the cycle
  \<open>A \<rightarrow> B \<rightarrow> C \<rightarrow> A\<close> the three prerequisites are reported, each once.
\<close>

theorem cycle_detection_complete:
  "(on_cycle es e \<longrightarrow> e \<in> set (detect_circular_prerequisites es))
   \<and> (acyclic (set es) \<longrightarrow> detect_circular_prerequisites es = [])
   \<and> set (detect_circular_prerequisites three_cycle) = set three_cycle
   \<and> distinct (detect_circular_prerequisites three_cycle)"
proof -
  have "e \<in> set (detect_circular_prerequisites es)" if "on_cycle es e"
    using that detect_leaving_cycle [of "fst e" "snd e" es "snd e"] by (simp add: on_cycle_def)
  moreover have "detect_circular_prerequisites three_cycle = [(''A'', ''B''), (''B'', ''C''), (''C'', ''A'')]"
    by code_simp
  ultimately show ?thesis
    using detect_acyclic [of es] by (simp add: three_cycle_def)
qed

theorem cycle_detection_complete_witness:
  "on_cycle three_cycle (''A'', ''B'')
   \<and> (''A'', ''B'') \<in> set (detect_circular_prerequisites three_cycle)
   \<and> acyclic (set no_cycle)
   \<and> detect_circular_prerequisites no_cycle = []"
proof -
  have "(''B'', ''C'') \<in> set three_cycle" "(''C'', ''A'') \<in> set three_cycle"
    by (simp_all add: three_cycle_def)
  then have "(''B'', ''A'') \<in> (set three_cycle)\<^sup>*"
    by (meson rtrancl.rtrancl_into_rtrancl rtrancl.rtrancl_refl)
  then have c: "on_cycle three_cycle (''A'', ''B'')"
    by (simp add: on_cycle_def three_cycle_def)
  have "(x, y) \<in> set no_cycle \<Longrightarrow> length (filter (\<lambda>e. fst e = y) no_cycle) < length (filter (\<lambda>e. fst e = x) no_cycle)" for x y
    by (auto simp: no_cycle_def)
  then have a: "acyclic (set no_cycle)"
    by (rule acyclicI_order)
  from cycle_detection_complete [of three_cycle "(''A'', ''B'')"]
    cycle_detection_complete [of no_cycle "(''A'', ''B'')"] c a
  show ?thesis by simp
qed

section \<open>Completion audit\<close>

lemma concat_map_if: "concat (map (\<lambda>x. if P x then F x else []) xs) = concat (map F (filter P xs))"
  by (induction xs) auto

lemma filter_key_single:
  assumes "distinct (map key xs)" and "k \<in> key ` set xs"
  shows "\<exists>x. filter (\<lambda>x. k = key x) xs = [x]"
  using assms
proof (induction xs)
  case Nil
  then show ?case by simp
next
  case (Cons y ys)
  show ?case
  proof (cases "k = key y")
    case True
    then have "filter (\<lambda>x. k = key x) ys = []"
      using Cons.prems(1) by (auto simp: filter_empty_conv)
    with True show ?thesis by simp
  next
    case False
    with Cons show ?thesis by auto
  qed
qed

lemma detect_missing_unfold:
  "detect_missing_prerequisites scs sts ps =
     concat (map (\<lambda>sc. concat (map (\<lambda>s. if student_id sc = s_id s
                                         then rows_for scs ps (email s) sc else []) sts)) scs)"
  unfolding detect_missing_prerequisites_def rows_for_def ..

lemma pairs_unfold:
  "missing_prerequisite_pairs scs ps = concat (map (pairs_for scs ps) scs)"
  unfolding missing_prerequisite_pairs_def pairs_for_def ..

lemma rows_for_pairs_for:
  "rows_for scs ps e sc =
     map (\<lambda>(sc, p). \<lparr>s_email = e, enrolled_course = sc_course_code sc, missing_prereq = snd p\<rparr>)
       (pairs_for scs ps sc)"
  unfolding rows_for_def pairs_for_def by (induction ps) simp_all

lemma pairs_for_fst: "x \<in> set (pairs_for scs ps sc) \<Longrightarrow> fst x = sc"
  unfolding pairs_for_def by (auto split: if_splits)

lemma detect_missing_eq:
  assumes "distinct (map s_id students)"
    and "\<forall>sc \<in> set student_courses. student_id sc \<in> s_id ` set students"
  shows "detect_missing_prerequisites student_courses students prerequisites_tbl =
     map (\<lambda>(sc, p). \<lparr>s_email = email_of students (student_id sc),
                      enrolled_course = sc_course_code sc, missing_prereq = snd p\<rparr>)
       (missing_prerequisite_pairs student_courses prerequisites_tbl)"
proof -
  let ?f = "\<lambda>(sc, p). \<lparr>s_email = email_of students (student_id sc),
                      enrolled_course = sc_course_code sc, missing_prereq = snd p\<rparr>"
  let ?R = "rows_for student_courses prerequisites_tbl"
  let ?P = "pairs_for student_courses prerequisites_tbl"
  have one: "concat (map (\<lambda>s. if student_id sc = s_id s then ?R (email s) sc else []) students)
               = map ?f (?P sc)"
    if "sc \<in> set student_courses" for sc
  proof -
    from assms that obtain s where s: "filter (\<lambda>s. student_id sc = s_id s) students = [s]"
      using filter_key_single [of s_id students "student_id sc"] by blast
    then have e: "email_of students (student_id sc) = email s" by (simp add: email_of_def)
    have "concat (map (\<lambda>s. if student_id sc = s_id s then ?R (email s) sc else []) students)
            = ?R (email s) sc"
      by (simp add: concat_map_if s)
    also have "\<dots> = map (\<lambda>(sc, p). \<lparr>s_email = email s, enrolled_course = sc_course_code sc,
                                      missing_prereq = snd p\<rparr>) (?P sc)"
      by (rule rows_for_pairs_for)
    also have "\<dots> = map ?f (?P sc)"
      by (rule map_cong [OF refl]) (auto simp: e dest: pairs_for_fst)
    finally show ?thesis .
  qed
  have "detect_missing_prerequisites student_courses students prerequisites_tbl
          = concat (map (\<lambda>sc. map ?f (?P sc)) student_courses)"
    unfolding detect_missing_unfold by (rule arg_cong [where f = concat], rule map_cong [OF refl]) (rule one)
  also have "\<dots> = map ?f (concat (map ?P student_courses))"
    by (simp add: map_concat comp_def)
  finally show ?thesis by (simp add: pairs_unfold)
qed

lemma missing_prerequisite_pairs_iff:
  "(sc, p) \<in> set (missing_prerequisite_pairs scs ps) \<longleftrightarrow>
     sc \<in> set scs \<and> p \<in> set ps \<and> sc_course_code sc = fst p
     \<and> \<not> (\<exists>sc2 \<in> set scs. student_id sc2 = student_id sc \<and> sc_course_code sc2 = snd p)"
  unfolding missing_prerequisite_pairs_def by (auto simp: list_ex_iff split: if_splits)

lemma count_list_concat: "count_list (concat xss) r = sum_list (map (\<lambda>xs. count_list xs r) xss)"
  by (induction xss) simp_all

lemma sum_list_map_concat:
  "sum_list (map f (concat xss)) = sum_list (map (\<lambda>xs. sum_list (map f xs)) xss)"
  by (induction xss) simp_all

lemma count_list_map_filter: "count_list (map f xs) r = length (filter (\<lambda>x. f x = r) xs)"
  by (induction xs) simp_all

lemma sum_list_length_filter_swap:
  "sum_list (map (\<lambda>s. length (filter (\<lambda>x. Q s x) xs)) ss)
     = sum_list (map (\<lambda>x. length (filter (\<lambda>s. Q s x) ss)) xs)"
proof (induction ss)
  case Nil
  then show ?case by (induction xs) simp_all
next
  case (Cons s ss)
  have "sum_list (map (\<lambda>x. length (filter (\<lambda>s'. Q s' x) (s # ss))) xs)
          = length (filter (Q s) xs) + sum_list (map (\<lambda>x. length (filter (\<lambda>s'. Q s' x) ss)) xs)"
    by (induction xs) simp_all
  with Cons show ?case by simp
qed

lemma detect_missing_by_completion:
  "detect_missing_prerequisites scs sts ps =
     concat (map (\<lambda>sc. concat (map (\<lambda>s. map (anomaly_row s) (pairs_for scs ps sc))
                                  (filter (\<lambda>s. student_id sc = s_id s) sts))) scs)"
proof -
  have "rows_for scs ps (email s) sc = map (anomaly_row s) (pairs_for scs ps sc)" for s sc
    unfolding rows_for_pairs_for by (rule map_cong [OF refl]) (auto simp: anomaly_row_def dest: pairs_for_fst)
  then show ?thesis
    unfolding detect_missing_unfold by (simp add: concat_map_if)
qed

lemma count_detect_missing:
  "count_list (detect_missing_prerequisites scs sts ps) r =
     sum_list (map (\<lambda>x. length (filter (\<lambda>s. student_id (fst x) = s_id s \<and> anomaly_row s x = r) sts))
                (missing_prerequisite_pairs scs ps))"
proof -
  have one: "count_list (concat (map (\<lambda>s. map (anomaly_row s) (pairs_for scs ps sc))
                                  (filter (\<lambda>s. student_id sc = s_id s) sts))) r
        = sum_list (map (\<lambda>x. length (filter (\<lambda>s. student_id (fst x) = s_id s \<and> anomaly_row s x = r) sts))
                (pairs_for scs ps sc))" for sc
  proof -
    let ?M = "filter (\<lambda>s. student_id sc = s_id s) sts"
    have "count_list (concat (map (\<lambda>s. map (anomaly_row s) (pairs_for scs ps sc)) ?M)) r
            = sum_list (map (\<lambda>s. length (filter (\<lambda>x. anomaly_row s x = r) (pairs_for scs ps sc))) ?M)"
      by (simp add: count_list_concat comp_def count_list_map_filter)
    also have "\<dots> = sum_list (map (\<lambda>x. length (filter (\<lambda>s. anomaly_row s x = r) ?M)) (pairs_for scs ps sc))"
      by (rule sum_list_length_filter_swap)
    also have "\<dots> = sum_list (map (\<lambda>x. length (filter (\<lambda>s. student_id (fst x) = s_id s \<and> anomaly_row s x = r) sts))
                (pairs_for scs ps sc))"
      by (rule arg_cong [where f = sum_list], rule map_cong [OF refl])
        (auto simp: conj_commute dest: pairs_for_fst intro!: arg_cong [where f = length] filter_cong)
    finally show ?thesis .
  qed
  let ?h = "\<lambda>x. length (filter (\<lambda>s. student_id (fst x) = s_id s \<and> anomaly_row s x = r) sts)"
  let ?G = "\<lambda>sc. concat (map (\<lambda>s. map (anomaly_row s) (pairs_for scs ps sc))
                             (filter (\<lambda>s. student_id sc = s_id s) sts))"
  have "count_list (detect_missing_prerequisites scs sts ps) r
          = sum_list (map (\<lambda>xs. count_list xs r) (map ?G scs))"
    unfolding detect_missing_by_completion by (rule count_list_concat)
  also have "\<dots> = sum_list (map (\<lambda>sc. sum_list (map ?h (pairs_for scs ps sc))) scs)"
    unfolding map_map comp_def by (simp only: one)
  also have "\<dots> = sum_list (map ?h (concat (map (pairs_for scs ps) scs)))"
    by (simp add: sum_list_map_concat comp_def)
  finally show ?thesis by (simp add: pairs_unfold)
qed

lemma set_detect_missing:
  "r \<in> set (detect_missing_prerequisites scs sts ps) \<longleftrightarrow>
     (\<exists>x s. x \<in> set (missing_prerequisite_pairs scs ps) \<and> s \<in> set sts
        \<and> student_id (fst x) = s_id s \<and> r = anomaly_row s x)"
proof -
  have "x \<in> set (pairs_for scs ps sc) \<Longrightarrow> fst x = sc" for x sc
    by (rule pairs_for_fst)
  then show ?thesis
    unfolding detect_missing_by_completion pairs_unfold by auto blast+
qed

text \<open>
  Claim C9, as the code has it. The query joins \<open>students\<close> to report the address of the
  student, so a row is emitted for every triple of a completion record, a row of
  \<open>students\<close> with the record's \<open>student_id\<close>, and a prerequisite of the completed
  course for which the student has no completion record of the required course, and no
  other row is emitted: a row occurs as often as there are such triples that produce
  it. Hence a pair of a completion record and a prerequisite yields one row for each
  row of \<open>students\<close> with that id. When \<open>students.id\<close> is a key and holds the student of
  every completion record, that is exactly one row per pair, in the order of the pairs.
\<close>

theorem completion_audit_rows:
  "count_list (detect_missing_prerequisites student_courses students prerequisites_tbl) r =
     sum_list (map (\<lambda>x. length (filter (\<lambda>s. student_id (fst x) = s_id s \<and> anomaly_row s x = r)
                                    students))
                (missing_prerequisite_pairs student_courses prerequisites_tbl))
   \<and> (r \<in> set (detect_missing_prerequisites student_courses students prerequisites_tbl) \<longleftrightarrow>
        (\<exists>x s. x \<in> set (missing_prerequisite_pairs student_courses prerequisites_tbl)
           \<and> s \<in> set students \<and> student_id (fst x) = s_id s \<and> r = anomaly_row s x))
   \<and> ((sc, p) \<in> set (missing_prerequisite_pairs student_courses prerequisites_tbl) \<longleftrightarrow>
        sc \<in> set student_courses \<and> p \<in> set prerequisites_tbl \<and> sc_course_code sc = fst p
        \<and> \<not> (\<exists>sc2 \<in> set student_courses.
                student_id sc2 = student_id sc \<and> sc_course_code sc2 = snd p))
   \<and> (distinct (map s_id students)
        \<and> (\<forall>sc \<in> set student_courses. student_id sc \<in> s_id ` set students)
      \<longrightarrow> detect_missing_prerequisites student_courses students prerequisites_tbl =
            map (\<lambda>(sc, p). \<lparr>s_email = email_of students (student_id sc),
                             enrolled_course = sc_course_code sc, missing_prereq = snd p\<rparr>)
              (missing_prerequisite_pairs student_courses prerequisites_tbl))"
  using count_detect_missing [of student_courses students prerequisites_tbl r]
    set_detect_missing [of r student_courses students prerequisites_tbl]
    missing_prerequisite_pairs_iff [of sc p student_courses prerequisites_tbl]
    detect_missing_eq [of students student_courses prerequisites_tbl]
  by blast

theorem completion_audit_rows_witness:
  "distinct (map s_id sample_students)
   \<and> list_all (\<lambda>sc. student_id sc \<in> s_id ` set sample_students) sample_completions
   \<and> missing_prerequisite_pairs sample_completions sample_prerequisites
       = [(\<lparr>student_id = 1, sc_course_code = ''IE7275''\<rparr>, (''IE7275'', ''IE6400''))]
   \<and> detect_missing_prerequisites sample_completions sample_students sample_prerequisites
       = [\<lparr>s_email = ''a@x.edu'', enrolled_course = ''IE7275'', missing_prereq = ''IE6400''\<rparr>]
   \<and> count_list (detect_missing_prerequisites sample_completions sample_students sample_prerequisites)
         \<lparr>s_email = ''a@x.edu'', enrolled_course = ''IE7275'', missing_prereq = ''IE6400''\<rparr> = 1"
proof -
  have d: "distinct (map s_id sample_students)"
    by (simp add: sample_students_def)
  have f: "\<forall>sc \<in> set sample_completions. student_id sc \<in> s_id ` set sample_students"
    by (simp add: sample_students_def sample_completions_def)
  have p: "missing_prerequisite_pairs sample_completions sample_prerequisites
       = [(\<lparr>student_id = 1, sc_course_code = ''IE7275''\<rparr>, (''IE7275'', ''IE6400''))]"
    by (simp add: missing_prerequisite_pairs_def sample_completions_def sample_prerequisites_def)
  have e: "email_of sample_students 1 = ''a@x.edu''"
    by (simp add: email_of_def sample_students_def)
  from completion_audit_rows [of sample_completions sample_students sample_prerequisites]
    d f p e
  show ?thesis by (simp add: list_all_iff)
qed

text \<open>
  Claim C9 as stated fails: a completion record whose student has no row in \<open>students\<close>
  forms a pair with the prerequisite of its course, the student has not completed the
  required course, and no anomaly row is emitted.
\<close>

theorem unknown_student_no_row:
  "missing_prerequisite_pairs unknown_student_completions sample_prerequisites
     = [(\<lparr>student_id = 3, sc_course_code = ''IE7275''\<rparr>, (''IE7275'', ''IE6400''))]
   \<and> detect_missing_prerequisites unknown_student_completions sample_students sample_prerequisites
       = []"
  by (simp add: missing_prerequisite_pairs_def detect_missing_prerequisites_def
      unknown_student_completions_def sample_prerequisites_def sample_students_def)

end
